theory Spec2Isabelle
  imports Main "HOL-Library.Word"
begin

section \<open>Machine types of the contract\<close>

type_synonym uint256 = "256 word"
type_synonym uint64 = "64 word"
type_synonym uint8 = "8 word"
type_synonym address = "160 word"

section \<open>The encryption library the contract calls\<close>

text \<open>
  Modelled from the spec: the library \<open>@fhevm/solidity/lib/FHE.sol\<close> (types \<open>euint64\<close>,
  \<open>euint8\<close>, \<open>ebool\<close>, \<open>externalEuint8\<close> and the operations on them) is imported by the
  contract and is not part of the sources. Following sections 4.1 and 9 of the
  specification, a ciphertext handle is an opaque value that carries the plaintext it
  encodes together with the set of grants issued on it; every operation that computes a
  new ciphertext returns it with no grant. The handle \<open>bytes32(0)\<close>, which Solidity
  storage holds before anything is written, is \<open>Uninitialized\<close>. The width of each
  plaintext is the one the type name gives (64 bits for \<open>euint64\<close>, 8 for \<open>euint8\<close>), and
  \<open>add\<close> is the addition of that width.
\<close>

datatype grantee = ThisContract | Anyone | Account address

datatype 'a ciphertext = Uninitialized | Ciphertext 'a "grantee set"

type_synonym euint64 = "uint64 ciphertext"
type_synonym euint8 = "uint8 ciphertext"
type_synonym ebool = "bool ciphertext"

text \<open>
  Modelled from the spec: an externally supplied ciphertext of an 8-bit value. The input
  proof is a byte string checked by the library's input verifier; the model keeps of it
  only whether the verifier accepts it for this handle and this caller.
\<close>

datatype externalEuint8 = ExternalEuint8 uint8

type_synonym inputProof = bool

text \<open>
  What a holder of the decryption right reads from a handle. The library's operations
  read an uninitialised operand as zero.
\<close>

fun decrypt :: "'a::zero ciphertext \<Rightarrow> 'a" where
  "decrypt Uninitialized = 0"
| "decrypt (Ciphertext v gs) = v"

fun decrypt_bool :: "ebool \<Rightarrow> bool" where
  "decrypt_bool Uninitialized = False"
| "decrypt_bool (Ciphertext b gs) = b"

fun grants :: "'a ciphertext \<Rightarrow> grantee set" where
  "grants Uninitialized = {}"
| "grants (Ciphertext v gs) = gs"

fun grant :: "grantee \<Rightarrow> 'a ciphertext \<Rightarrow> 'a ciphertext" where
  "grant g Uninitialized = Uninitialized"
| "grant g (Ciphertext v gs) = Ciphertext v (insert g gs)"

text \<open>
  Every call of a primitive is a request to the encryption coprocessor. The requests are
  recorded in order, each with its kind and with the arguments that are public on the
  ledger (a plaintext constant being encoded, the account a grant names); operands that
  are ciphertexts are not part of the record.
\<close>

datatype fhe_op =
    OpAsEuint64 uint64
  | OpAsEuint8 uint8
  | OpFromExternal
  | OpAdd
  | OpEq
  | OpSelect
  | OpAllowThis
  | OpAllow address
  | OpMakePubliclyDecryptable

datatype error =
    InvalidPrediction
  | InvalidOptionsCount
  | EmptyOption
  | EmptyName
  | BetAlreadyPlaced
  | InvalidBetAmount
  | ProofInvalid
  | ArithmeticPanic
  | NotPayable

definition FHE_asEuint64 :: "uint64 \<Rightarrow> fhe_op list \<Rightarrow> euint64 \<times> fhe_op list" where
  "FHE_asEuint64 v l = (Ciphertext v {}, l @ [OpAsEuint64 v])"

definition FHE_asEuint8 :: "uint8 \<Rightarrow> fhe_op list \<Rightarrow> euint8 \<times> fhe_op list" where
  "FHE_asEuint8 v l = (Ciphertext v {}, l @ [OpAsEuint8 v])"

definition FHE_fromExternal ::
  "externalEuint8 \<Rightarrow> inputProof \<Rightarrow> fhe_op list \<Rightarrow> error + (euint8 \<times> fhe_op list)" where
  "FHE_fromExternal ext proof_ok l =
     (case ext of ExternalEuint8 v \<Rightarrow>
        if proof_ok then Inr (Ciphertext v {}, l @ [OpFromExternal]) else Inl ProofInvalid)"

definition FHE_add :: "euint64 \<Rightarrow> euint64 \<Rightarrow> fhe_op list \<Rightarrow> euint64 \<times> fhe_op list" where
  "FHE_add a b l = (Ciphertext (decrypt a + decrypt b) {}, l @ [OpAdd])"

definition FHE_eq :: "euint8 \<Rightarrow> euint8 \<Rightarrow> fhe_op list \<Rightarrow> ebool \<times> fhe_op list" where
  "FHE_eq a b l = (Ciphertext (decrypt a = decrypt b) {}, l @ [OpEq])"

definition FHE_select ::
  "ebool \<Rightarrow> euint64 \<Rightarrow> euint64 \<Rightarrow> fhe_op list \<Rightarrow> euint64 \<times> fhe_op list" where
  "FHE_select c a b l =
     (Ciphertext (if decrypt_bool c then decrypt a else decrypt b) {}, l @ [OpSelect])"

definition FHE_allowThis :: "'a ciphertext \<Rightarrow> fhe_op list \<Rightarrow> 'a ciphertext \<times> fhe_op list" where
  "FHE_allowThis c l = (grant ThisContract c, l @ [OpAllowThis])"

definition FHE_makePubliclyDecryptable ::
  "'a ciphertext \<Rightarrow> fhe_op list \<Rightarrow> 'a ciphertext \<times> fhe_op list" where
  "FHE_makePubliclyDecryptable c l = (grant Anyone c, l @ [OpMakePubliclyDecryptable])"

definition FHE_allow ::
  "'a ciphertext \<Rightarrow> address \<Rightarrow> fhe_op list \<Rightarrow> 'a ciphertext \<times> fhe_op list" where
  "FHE_allow c a l = (grant (Account a) c, l @ [OpAllow a])"

section \<open>Storage of FHEPredictionMarket\<close>

record Prediction =
  name :: string
  options :: "string list"
  optionTotals :: "euint64 list"
  encryptedPool :: euint64
  creator :: address
  createdAt :: uint256
  exists :: bool

record BetInfo =
  encryptedAmount :: euint64
  encryptedSelection :: euint8
  exists :: bool

record PredictionSummary =
  id' :: uint256
  name :: string
  options :: "string list"
  creator :: address
  createdAt :: uint256

datatype event =
    PredictionCreated uint256 address string uint256
  | BetPlaced uint256 address euint64 euint8 uint256

text \<open>
  A Solidity mapping is total: a key that was never written reads as the value whose
  every field is zero.
\<close>

definition zero_Prediction :: Prediction where
  "zero_Prediction =
     \<lparr>Prediction.name = [], options = [], optionTotals = [], encryptedPool = Uninitialized,
      creator = 0, createdAt = 0, exists = False\<rparr>"

definition zero_BetInfo :: BetInfo where
  "zero_BetInfo =
     \<lparr>encryptedAmount = Uninitialized, encryptedSelection = Uninitialized, exists = False\<rparr>"

definition zero_PredictionSummary :: PredictionSummary where
  "zero_PredictionSummary =
     \<lparr>id' = 0, name = [], options = [], creator = 0, createdAt = 0\<rparr>"

text \<open>
  The four state variables of the contract, and with them what a transaction changes
  outside the contract's storage: the value the contract holds, the requests it has sent
  to the coprocessor and the events it has emitted. The held value is a \<open>nat\<close>: the
  ledger's total supply keeps it far from $2^{256}$.
\<close>

record market =
  nextPredictionId :: uint256
  predictions :: "uint256 \<Rightarrow> Prediction"
  bets :: "uint256 \<Rightarrow> address \<Rightarrow> BetInfo"
  predictionIds :: "uint256 list"
  balance :: nat
  fhe_log :: "fhe_op list"
  events :: "event list"

definition deployed :: market where
  "deployed =
     \<lparr>nextPredictionId = 1, predictions = (\<lambda>_. zero_Prediction),
      bets = (\<lambda>_ _. zero_BetInfo), predictionIds = [], balance = 0, fhe_log = [],
      events = []\<rparr>"

section \<open>createPrediction\<close>

text \<open>The first loop of \<open>createPrediction\<close>: does some option have no bytes?\<close>

fun has_empty_option :: "string list \<Rightarrow> bool" where
  "has_empty_option [] = False"
| "has_empty_option (x # xs) = (if length x = 0 then True else has_empty_option xs)"

text \<open>
  An encrypted zero with the three grants: the contract itself, anyone, and the caller.
\<close>

definition granted_zero :: "address \<Rightarrow> fhe_op list \<Rightarrow> euint64 \<times> fhe_op list" where
  "granted_zero sender l =
     (let (z, l) = FHE_asEuint64 0 l;
          (z, l) = FHE_allowThis z l;
          (z, l) = FHE_makePubliclyDecryptable z l;
          (z, l) = FHE_allow z sender l
      in (z, l))"

text \<open>The second loop: push each option and an encrypted zero total for it.\<close>

fun push_options ::
  "address \<Rightarrow> string list \<Rightarrow> Prediction \<times> fhe_op list \<Rightarrow> Prediction \<times> fhe_op list" where
  "push_options sender [] (prediction, l) = (prediction, l)"
| "push_options sender (x # xs) (prediction, l) =
     (let prediction = prediction\<lparr>Prediction.options := Prediction.options prediction @ [x]\<rparr>;
          (optionTotal, l) = granted_zero sender l;
          prediction = prediction\<lparr>optionTotals := optionTotals prediction @ [optionTotal]\<rparr>
      in push_options sender xs (prediction, l))"

definition createPrediction ::
  "address \<Rightarrow> uint256 \<Rightarrow> string \<Rightarrow> string list \<Rightarrow> market \<Rightarrow> error + (uint256 \<times> market)" where
  "createPrediction sender timestamp name' options' s =
     (if length name' = 0 then Inl EmptyName
      else if length options' < 2 \<or> length options' > 4 then Inl InvalidOptionsCount
      else if has_empty_option options' then Inl EmptyOption
      else if nextPredictionId s = - 1 then Inl ArithmeticPanic
      else
        let predictionId = nextPredictionId s;
            prediction = predictions s predictionId;
            prediction = prediction\<lparr>Prediction.name := name', Prediction.creator := sender,
                           Prediction.createdAt := timestamp, Prediction.exists := True\<rparr>;
            (zeroValue, l) = granted_zero sender (fhe_log s);
            prediction = prediction\<lparr>encryptedPool := zeroValue\<rparr>;
            (prediction, l) = push_options sender options' (prediction, l)
        in Inr (predictionId,
                s\<lparr>nextPredictionId := predictionId + 1,
                  predictions := (predictions s)(predictionId := prediction),
                  predictionIds := predictionIds s @ [predictionId],
                  fhe_log := l,
                  events := events s @
                    [PredictionCreated predictionId sender name' (of_nat (length options'))]\<rparr>))"

section \<open>placeEncryptedBet\<close>

text \<open>
  The aggregation loop \<open>for (i = 0; i < prediction.optionTotals.length; i++)\<close>. The loop
  counter is a \<open>uint256\<close> below the array length; \<open>uint8(i)\<close> keeps its low 8 bits.
\<close>

function aggregate ::
  "address \<Rightarrow> euint8 \<Rightarrow> euint64 \<Rightarrow> euint64 \<Rightarrow> nat \<Rightarrow> euint64 list \<Rightarrow> fhe_op list
     \<Rightarrow> euint64 list \<times> fhe_op list" where
  "aggregate sender selection encryptedAmount' zeroAddition i totals l =
     (if i < length totals then
        let (index, l) = FHE_asEuint8 (of_nat i) l;
            (matchesOption, l) = FHE_eq selection index l;
            (addition, l) = FHE_select matchesOption encryptedAmount' zeroAddition l;
            (newTotal, l) = FHE_add (totals ! i) addition l;
            (newTotal, l) = FHE_allowThis newTotal l;
            (newTotal, l) = FHE_makePubliclyDecryptable newTotal l;
            (newTotal, l) = FHE_allow newTotal sender l
        in aggregate sender selection encryptedAmount' zeroAddition (i + 1)
             (totals[i := newTotal]) l
      else (totals, l))"
  by pat_completeness auto
termination
  by (relation "measure (\<lambda>(sender, selection, encryptedAmount', zeroAddition, i, totals, l).
                   length totals - i)")
     (auto simp: FHE_asEuint8_def FHE_eq_def FHE_select_def FHE_add_def FHE_allowThis_def
        FHE_makePubliclyDecryptable_def FHE_allow_def)

declare aggregate.simps [simp del]

definition placeEncryptedBet ::
  "address \<Rightarrow> uint256 \<Rightarrow> uint256 \<Rightarrow> externalEuint8 \<Rightarrow> inputProof \<Rightarrow> market
     \<Rightarrow> error + market" where
  "placeEncryptedBet sender msg_value predictionId encryptedSelection' proof s =
     (let prediction = predictions s predictionId in
      if \<not> Prediction.exists prediction then Inl InvalidPrediction
      else if length (optionTotals prediction) = 0 then Inl InvalidOptionsCount
      else if msg_value = 0 \<or> msg_value > 2 ^ 64 - 1 then Inl InvalidBetAmount
      else
        let betInfo = bets s predictionId sender in
        if BetInfo.exists betInfo then Inl BetAlreadyPlaced
        else
          case FHE_fromExternal encryptedSelection' proof (fhe_log s) of
            Inl e \<Rightarrow> Inl e
          | Inr (selection, l) \<Rightarrow>
              let (selection, l) = FHE_allowThis selection l;
                  (selection, l) = FHE_allow selection sender l;
                  (encryptedAmount', l) = FHE_asEuint64 (ucast msg_value) l;
                  (encryptedAmount', l) = FHE_allowThis encryptedAmount' l;
                  (encryptedAmount', l) = FHE_allow encryptedAmount' sender l;
                  (pool, l) = FHE_add (encryptedPool prediction) encryptedAmount' l;
                  (pool, l) = FHE_allowThis pool l;
                  (pool, l) = FHE_makePubliclyDecryptable pool l;
                  (pool, l) = FHE_allow pool sender l;
                  prediction = prediction\<lparr>encryptedPool := pool\<rparr>;
                  (zeroAddition, l) = FHE_asEuint64 0 l;
                  (zeroAddition, l) = FHE_allowThis zeroAddition l;
                  (totals, l) = aggregate sender selection encryptedAmount' zeroAddition 0
                                  (optionTotals prediction) l;
                  prediction = prediction\<lparr>optionTotals := totals\<rparr>;
                  betInfo = betInfo\<lparr>encryptedAmount := encryptedAmount',
                              encryptedSelection := selection, BetInfo.exists := True\<rparr>
              in Inr (s\<lparr>predictions := (predictions s)(predictionId := prediction),
                        bets := (bets s)(predictionId := (bets s predictionId)(sender := betInfo)),
                        fhe_log := l,
                        events := events s @
                          [BetPlaced predictionId sender encryptedAmount' selection msg_value]\<rparr>))"

section \<open>Read accessors\<close>

text \<open>The private helpers copy a storage array into a fresh memory array, slot by slot.\<close>

function copy_from :: "nat \<Rightarrow> 'a list \<Rightarrow> 'a list \<Rightarrow> 'a list" where
  "copy_from i source copy =
     (if i < length source then copy_from (i + 1) source (copy[i := source ! i]) else copy)"
  by pat_completeness auto
termination
  by (relation "measure (\<lambda>(i, source, copy). length source - i)") auto

declare copy_from.simps [simp del]

definition copyOptions :: "string list \<Rightarrow> string list" where
  "copyOptions source = copy_from 0 source (replicate (length source) [])"

definition copyEncryptedTotals :: "euint64 list \<Rightarrow> euint64 list" where
  "copyEncryptedTotals source = copy_from 0 source (replicate (length source) Uninitialized)"

definition summary_of :: "uint256 \<Rightarrow> Prediction \<Rightarrow> PredictionSummary" where
  "summary_of predictionId prediction =
     \<lparr>id' = predictionId, name = Prediction.name prediction,
      options = copyOptions (Prediction.options prediction),
      creator = Prediction.creator prediction,
      createdAt = Prediction.createdAt prediction\<rparr>"

text \<open>
  The loop of \<open>listPredictions\<close>: a slot whose prediction does not exist is passed over
  by \<open>continue\<close> and keeps the zero summary the array was allocated with.
\<close>

function list_from :: "market \<Rightarrow> nat \<Rightarrow> PredictionSummary list \<Rightarrow> PredictionSummary list" where
  "list_from s i summaries =
     (if i < length (predictionIds s) then
        let prediction = predictions s (predictionIds s ! i) in
        if \<not> Prediction.exists prediction then list_from s (i + 1) summaries
        else list_from s (i + 1)
               (summaries[i := summary_of (predictionIds s ! i) prediction])
      else summaries)"
  by pat_completeness auto
termination
  by (relation "measure (\<lambda>(s, i, summaries). length (predictionIds s) - i)") auto

declare list_from.simps [simp del]

definition listPredictions :: "market \<Rightarrow> PredictionSummary list" where
  "listPredictions s =
     list_from s 0 (replicate (length (predictionIds s)) zero_PredictionSummary)"

definition getPredictionMetadata :: "uint256 \<Rightarrow> market \<Rightarrow> error + PredictionSummary" where
  "getPredictionMetadata predictionId s =
     (let prediction = predictions s predictionId in
      if \<not> Prediction.exists prediction then Inl InvalidPrediction
      else Inr (summary_of predictionId prediction))"

definition getEncryptedTotals :: "uint256 \<Rightarrow> market \<Rightarrow> error + (euint64 list \<times> euint64)" where
  "getEncryptedTotals predictionId s =
     (let prediction = predictions s predictionId in
      if \<not> Prediction.exists prediction then Inl InvalidPrediction
      else Inr (copyEncryptedTotals (optionTotals prediction), encryptedPool prediction))"

definition getUserBet ::
  "uint256 \<Rightarrow> address \<Rightarrow> market \<Rightarrow> error + (euint64 \<times> euint8 \<times> bool)" where
  "getUserBet predictionId user s =
     (let prediction = predictions s predictionId in
      if \<not> Prediction.exists prediction then Inl InvalidPrediction
      else
        let bet = bets s predictionId user
        in Inr (encryptedAmount bet, encryptedSelection bet, BetInfo.exists bet))"

definition getPredictionCount :: "market \<Rightarrow> uint256" where
  "getPredictionCount s = of_nat (length (predictionIds s))"

section \<open>Transactions\<close>

text \<open>
  The entry points of the contract. A transaction names one of them and carries the
  caller, the value attached and the block's timestamp. Only \<open>placeEncryptedBet\<close> is
  \<open>payable\<close>: the compiler makes every other entry point revert when value is attached,
  and the contract has neither a \<open>receive\<close> nor a \<open>fallback\<close> function. The attached value
  is credited before the body runs; a revert restores the whole state.
\<close>

datatype call =
    CreatePrediction string "string list"
  | PlaceEncryptedBet uint256 externalEuint8 inputProof
  | ListPredictions
  | GetPredictionMetadata uint256
  | GetEncryptedTotals uint256
  | GetUserBet uint256 address
  | GetPredictionCount

datatype tx = Tx (msg_sender: address) (msg_value: uint256) (block_timestamp: uint256)
  (entry: call)

datatype returned =
    Created uint256
  | Placed
  | Summaries "PredictionSummary list"
  | Metadata PredictionSummary
  | Totals "euint64 list" euint64
  | UserBet euint64 euint8 bool
  | Count uint256

type_synonym outcome = "error + returned"

fun dispatch :: "address \<Rightarrow> uint256 \<Rightarrow> uint256 \<Rightarrow> call \<Rightarrow> market \<Rightarrow> error + (returned \<times> market)" where
  "dispatch sender v ts (PlaceEncryptedBet predictionId ext proof) s =
     (case placeEncryptedBet sender v predictionId ext proof
             (s\<lparr>balance := balance s + unat v\<rparr>) of
        Inl e \<Rightarrow> Inl e
      | Inr s' \<Rightarrow> Inr (Placed, s'))"
| "dispatch sender v ts c s =
     (if v \<noteq> 0 then Inl NotPayable
      else case c of
        CreatePrediction name' options' \<Rightarrow>
          (case createPrediction sender ts name' options' s of
             Inl e \<Rightarrow> Inl e
           | Inr (predictionId, s') \<Rightarrow> Inr (Created predictionId, s'))
      | ListPredictions \<Rightarrow> Inr (Summaries (listPredictions s), s)
      | GetPredictionMetadata predictionId \<Rightarrow>
          (case getPredictionMetadata predictionId s of
             Inl e \<Rightarrow> Inl e
           | Inr m \<Rightarrow> Inr (Metadata m, s))
      | GetEncryptedTotals predictionId \<Rightarrow>
          (case getEncryptedTotals predictionId s of
             Inl e \<Rightarrow> Inl e
           | Inr (totals, pool) \<Rightarrow> Inr (Totals totals pool, s))
      | GetUserBet predictionId user \<Rightarrow>
          (case getUserBet predictionId user s of
             Inl e \<Rightarrow> Inl e
           | Inr (a, b, c) \<Rightarrow> Inr (UserBet a b c, s))
      | GetPredictionCount \<Rightarrow> Inr (Count (getPredictionCount s), s))"

definition execute :: "tx \<Rightarrow> market \<Rightarrow> outcome \<times> market" where
  "execute t s =
     (case dispatch (msg_sender t) (msg_value t) (block_timestamp t) (entry t) s of
        Inl e \<Rightarrow> (Inl e, s)
      | Inr (r, s') \<Rightarrow> (Inr r, s'))"

text \<open>The state after a sequence of transactions, and what each of them returned.\<close>

fun run :: "tx list \<Rightarrow> market \<Rightarrow> market" where
  "run [] s = s"
| "run (t # ts) s = run ts (snd (execute t s))"

fun transcript :: "tx list \<Rightarrow> market \<Rightarrow> (tx \<times> outcome) list" where
  "transcript [] s = []"
| "transcript (t # ts) s = (t, fst (execute t s)) # transcript ts (snd (execute t s))"

text \<open>
  The bets of a transcript: the calls of \<open>placeEncryptedBet\<close> that did not revert, each
  with its prediction, its caller, the value attached and the selection that was
  encrypted.
\<close>

record placed_bet =
  on_prediction :: uint256
  bettor :: address
  stake :: uint256
  selected :: uint8

fun placed :: "tx \<times> outcome \<Rightarrow> placed_bet list" where
  "placed (Tx a v ts (PlaceEncryptedBet p (ExternalEuint8 x) proof), Inr r) =
     [\<lparr>on_prediction = p, bettor = a, stake = v, selected = x\<rparr>]"
| "placed other = []"

definition placed_bets :: "uint256 \<Rightarrow> (tx \<times> outcome) list \<Rightarrow> placed_bet list" where
  "placed_bets p tr = filter (\<lambda>b. on_prediction b = p) (concat (map placed tr))"

text \<open>The sum of the stakes of a list of bets, in the 64-bit arithmetic of \<open>euint64\<close>.\<close>

definition stake_sum :: "placed_bet list \<Rightarrow> uint64" where
  "stake_sum bs = sum_list (map (\<lambda>b. ucast (stake b)) bs)"

definition on_option :: "nat \<Rightarrow> placed_bet list \<Rightarrow> placed_bet list" where
  "on_option i bs = filter (\<lambda>b. unat (selected b) = i) bs"

text \<open>The predictions of a transcript: what each successful \<open>createPrediction\<close> returned.\<close>

fun created :: "tx \<times> outcome \<Rightarrow> PredictionSummary list" where
  "created (Tx a v ts (CreatePrediction name' options'), Inr (Created i)) =
     [\<lparr>id' = i, name = name', options = options', creator = a, createdAt = ts\<rparr>]"
| "created other = []"

definition creations :: "(tx \<times> outcome) list \<Rightarrow> PredictionSummary list" where
  "creations tr = concat (map created tr)"

section \<open>Closed forms of one call\<close>

text \<open>
  What a successful call stores and which requests it sends, written without the
  threading of the request log. The lemmas of the next sections show that the functions
  above compute exactly these.
\<close>

definition zero_ops :: "address \<Rightarrow> fhe_op list" where
  "zero_ops a = [OpAsEuint64 0, OpAllowThis, OpMakePubliclyDecryptable, OpAllow a]"

definition loop_ops :: "address \<Rightarrow> nat \<Rightarrow> fhe_op list" where
  "loop_ops a i = [OpAsEuint8 (of_nat i), OpEq, OpSelect, OpAdd, OpAllowThis,
                   OpMakePubliclyDecryptable, OpAllow a]"

definition added :: "address \<Rightarrow> euint8 \<Rightarrow> euint64 \<Rightarrow> euint64 \<Rightarrow> nat \<Rightarrow> euint64 \<Rightarrow> euint64" where
  "added a sel amt z i t =
     Ciphertext (decrypt t + (if decrypt sel = of_nat i then decrypt amt else decrypt z))
       {Account a, Anyone, ThisContract}"

definition new_prediction ::
  "address \<Rightarrow> uint256 \<Rightarrow> string \<Rightarrow> string list \<Rightarrow> Prediction \<Rightarrow> Prediction" where
  "new_prediction a ts n os old =
     old\<lparr>Prediction.name := n, Prediction.creator := a, Prediction.createdAt := ts,
         Prediction.exists := True,
         encryptedPool := Ciphertext 0 {Account a, Anyone, ThisContract},
         Prediction.options := Prediction.options old @ os,
         optionTotals := optionTotals old @
           replicate (length os) (Ciphertext 0 {Account a, Anyone, ThisContract})\<rparr>"

definition amount_ct :: "address \<Rightarrow> uint256 \<Rightarrow> euint64" where
  "amount_ct a v = Ciphertext (ucast v) {Account a, ThisContract}"

definition selection_ct :: "address \<Rightarrow> uint8 \<Rightarrow> euint8" where
  "selection_ct a x = Ciphertext x {Account a, ThisContract}"

definition bet_prediction :: "address \<Rightarrow> uint256 \<Rightarrow> uint8 \<Rightarrow> Prediction \<Rightarrow> Prediction" where
  "bet_prediction a v x old =
     old\<lparr>encryptedPool :=
           Ciphertext (decrypt (encryptedPool old) + ucast v) {Account a, Anyone, ThisContract},
         optionTotals :=
           map (\<lambda>j. Ciphertext (decrypt (optionTotals old ! j) + (if x = of_nat j then ucast v else 0))
                       {Account a, Anyone, ThisContract})
             [0..<length (optionTotals old)]\<rparr>"

definition bet_ops :: "address \<Rightarrow> uint256 \<Rightarrow> nat \<Rightarrow> fhe_op list" where
  "bet_ops a v n =
     [OpFromExternal, OpAllowThis, OpAllow a,
      OpAsEuint64 (ucast v), OpAllowThis, OpAllow a,
      OpAdd, OpAllowThis, OpMakePubliclyDecryptable, OpAllow a,
      OpAsEuint64 0, OpAllowThis] @ concat (map (loop_ops a) [0..<n])"

section \<open>Measures on transcripts\<close>

text \<open>The exact sum of the stakes of a list of bets, and the bets of one bettor.\<close>

definition staked :: "placed_bet list \<Rightarrow> nat" where
  "staked bs = sum_list (map (\<lambda>b. unat (stake b)) bs)"

definition bets_of :: "address \<Rightarrow> placed_bet list \<Rightarrow> placed_bet list" where
  "bets_of u bs = filter (\<lambda>b. bettor b = u) bs"

definition stored_bet :: "address \<Rightarrow> placed_bet list \<Rightarrow> BetInfo" where
  "stored_bet u bs =
     (case bs of
        [] \<Rightarrow> zero_BetInfo
      | b # rest \<Rightarrow> \<lparr>encryptedAmount = amount_ct u (stake b),
                     encryptedSelection = selection_ct u (selected b), exists = True\<rparr>)"

section \<open>Invariants\<close>

text \<open>
  \<open>consistent\<close> speaks of the state alone: the id counter is one ahead of the number of
  ids, the ids are 1, 2, 3 and so on, a prediction exists exactly when its id is listed, a
  prediction that does not exist is all zero, and one that exists has between 2 and 4
  options and a total for each. The other three relate the state to the transcript that
  led to it.
\<close>

definition consistent :: "market \<Rightarrow> bool" where
  "consistent s \<longleftrightarrow>
     unat (nextPredictionId s) = Suc (length (predictionIds s)) \<and>
     map unat (predictionIds s) = [1..<Suc (length (predictionIds s))] \<and>
     (\<forall>p. Prediction.exists (predictions s p) \<longleftrightarrow> p \<in> set (predictionIds s)) \<and>
     (\<forall>p. \<not> Prediction.exists (predictions s p) \<longrightarrow> predictions s p = zero_Prediction) \<and>
     (\<forall>p. Prediction.exists (predictions s p) \<longrightarrow>
          length (optionTotals (predictions s p)) = length (Prediction.options (predictions s p)) \<and>
          2 \<le> length (Prediction.options (predictions s p)) \<and>
          length (Prediction.options (predictions s p)) \<le> 4)"

definition bets_recorded :: "market \<Rightarrow> (tx \<times> outcome) list \<Rightarrow> bool" where
  "bets_recorded s tr \<longleftrightarrow>
     (\<forall>p u. bets s p u = stored_bet u (bets_of u (placed_bets p tr)) \<and>
            length (bets_of u (placed_bets p tr)) \<le> 1) \<and>
     (\<forall>p. \<not> Prediction.exists (predictions s p) \<longrightarrow> placed_bets p tr = [])"

definition totals_recorded :: "market \<Rightarrow> (tx \<times> outcome) list \<Rightarrow> bool" where
  "totals_recorded s tr \<longleftrightarrow>
     (\<forall>p. decrypt (encryptedPool (predictions s p)) = stake_sum (placed_bets p tr) \<and>
          (\<forall>i < length (optionTotals (predictions s p)).
              decrypt (optionTotals (predictions s p) ! i) =
                stake_sum (on_option i (placed_bets p tr))))"

definition creations_recorded :: "market \<Rightarrow> (tx \<times> outcome) list \<Rightarrow> bool" where
  "creations_recorded s tr \<longleftrightarrow>
     map (\<lambda>p. summary_of p (predictions s p)) (predictionIds s) = creations tr"

section \<open>Scenarios\<close>

text \<open>
  The accounts and transactions of the scenarios the statements are tried on.
\<close>

definition deployer :: address where "deployer = 10"

definition alice :: address where "alice = 11"

definition bob :: address where "bob = 12"

definition carol :: address where "carol = 13"

definition create_weather :: tx where
  "create_weather = Tx deployer 0 100 (CreatePrediction ''Weather'' [''Sunny'', ''Rainy''])"

definition alice_bets :: tx where
  "alice_bets = Tx alice 5 101 (PlaceEncryptedBet 1 (ExternalEuint8 1) True)"

definition alice_again :: "uint256 \<Rightarrow> tx" where
  "alice_again v = Tx alice v 102 (PlaceEncryptedBet 1 (ExternalEuint8 0) True)"

definition create_match :: tx where
  "create_match = Tx deployer 0 100 (CreatePrediction ''Match'' [''A'', ''B'', ''C''])"

definition alice_on_A :: tx where
  "alice_on_A = Tx alice 2 101 (PlaceEncryptedBet 1 (ExternalEuint8 0) True)"

definition bob_on_C :: tx where
  "bob_on_C = Tx bob 3 102 (PlaceEncryptedBet 1 (ExternalEuint8 2) True)"

definition alice_out_of_range :: tx where
  "alice_out_of_range = Tx alice 5 101 (PlaceEncryptedBet 1 (ExternalEuint8 7) True)"

section \<open>What one call does\<close>

lemmas FHE_defs = FHE_asEuint64_def FHE_asEuint8_def FHE_add_def FHE_eq_def FHE_select_def
  FHE_allowThis_def FHE_makePubliclyDecryptable_def FHE_allow_def

lemma granted_zero_eq:
  "granted_zero a l = (Ciphertext 0 {Account a, Anyone, ThisContract}, l @ zero_ops a)"
  by (simp add: granted_zero_def FHE_defs zero_ops_def)

lemma push_options_eq:
  "push_options a xs (p, l) =
     (p\<lparr>Prediction.options := Prediction.options p @ xs,
        optionTotals := optionTotals p @ replicate (length xs) (Ciphertext 0 {Account a, Anyone, ThisContract})\<rparr>,
      l @ concat (replicate (length xs) (zero_ops a)))"
proof (induction xs arbitrary: p l)
  case Nil
  show ?case by simp
next
  case (Cons x xs)
  show ?case
    by (simp add: granted_zero_eq Cons.IH replicate_app_Cons_same)
qed

lemma aggregate_step:
  "i < length totals \<Longrightarrow>
     aggregate a sel amt z i totals l =
       aggregate a sel amt z (Suc i) (totals[i := added a sel amt z i (totals ! i)])
         (l @ loop_ops a i)"
  by (subst aggregate.simps) (simp add: FHE_defs added_def loop_ops_def)

lemma aggregate_stop:
  "\<not> i < length totals \<Longrightarrow> aggregate a sel amt z i totals l = (totals, l)"
  by (subst aggregate.simps) simp

lemma aggregate_eq:
  "aggregate a sel amt z i totals l =
     (take i totals @ map (\<lambda>j. added a sel amt z j (totals ! j)) [i..<length totals],
      l @ concat (map (loop_ops a) [i..<length totals]))"
proof (induction "length totals - i" arbitrary: i totals l)
  case 0
  then show ?case by (simp add: aggregate_stop)
next
  case (Suc n)
  then have lt: "i < length totals" by simp
  have n: "n = length (totals[i := added a sel amt z i (totals ! i)]) - Suc i"
    using Suc.hyps(2) by simp
  let ?t = "totals[i := added a sel amt z i (totals ! i)]"
  have tk: "take (Suc i) ?t = take i totals @ [added a sel amt z i (totals ! i)]"
    using lt by (simp add: take_Suc_conv_app_nth)
  have mp: "map (\<lambda>j. added a sel amt z j (?t ! j)) [Suc i..<length totals] =
            map (\<lambda>j. added a sel amt z j (totals ! j)) [Suc i..<length totals]"
    by (rule map_cong) auto
  show ?case
    by (simp add: aggregate_step [OF lt] Suc.hyps(1) [OF n] upt_conv_Cons [OF lt] tk mp)
qed

lemma createPrediction_Inr:
  "createPrediction a ts n os s = Inr (i, s') \<longleftrightarrow>
     n \<noteq> [] \<and> 2 \<le> length os \<and> length os \<le> 4 \<and> \<not> has_empty_option os \<and>
     nextPredictionId s \<noteq> - 1 \<and> i = nextPredictionId s \<and>
     s' = s\<lparr>nextPredictionId := nextPredictionId s + 1,
            predictions := (predictions s)
              (nextPredictionId s := new_prediction a ts n os (predictions s (nextPredictionId s))),
            predictionIds := predictionIds s @ [nextPredictionId s],
            fhe_log := fhe_log s @ zero_ops a @ concat (replicate (length os) (zero_ops a)),
            events := events s @
              [PredictionCreated (nextPredictionId s) a n (of_nat (length os))]\<rparr>"
  by (auto simp: createPrediction_def granted_zero_eq push_options_eq new_prediction_def
        Let_def)

lemma placeEncryptedBet_Inr:
  "placeEncryptedBet a v p (ExternalEuint8 x) pr s = Inr s' \<longleftrightarrow>
     Prediction.exists (predictions s p) \<and> optionTotals (predictions s p) \<noteq> [] \<and>
     v \<noteq> 0 \<and> v \<le> 2 ^ 64 - 1 \<and> \<not> BetInfo.exists (bets s p a) \<and> pr \<and>
     s' = s\<lparr>predictions := (predictions s)(p := bet_prediction a v x (predictions s p)),
            bets := (bets s)(p := (bets s p)
              (a := (bets s p a)\<lparr>encryptedAmount := amount_ct a v,
                      encryptedSelection := selection_ct a x, BetInfo.exists := True\<rparr>)),
            fhe_log := fhe_log s @ bet_ops a v (length (optionTotals (predictions s p))),
            events := events s @ [BetPlaced p a (amount_ct a v) (selection_ct a x) v]\<rparr>"
  by (auto simp: placeEncryptedBet_def FHE_fromExternal_def FHE_defs aggregate_eq added_def
        bet_prediction_def bet_ops_def amount_ct_def selection_ct_def Let_def not_less
        insert_commute cong: if_cong)

lemma run_snoc: "run (ts @ [t]) s = snd (execute t (run ts s))"
  by (induction ts arbitrary: s) simp_all

lemma transcript_snoc:
  "transcript (ts @ [t]) s = transcript ts s @ [(t, fst (execute t (run ts s)))]"
  by (induction ts arbitrary: s) simp_all

lemma execute_cases [case_names revert view create bet]:
  obtains
    (revert) e where "execute t s = (Inl e, s)"
  | (view) r where "execute t s = (Inr r, s)" "placed (t, Inr r) = []"
      "created (t, Inr r) = []"
  | (create) a ts n os s' where "t = Tx a 0 ts (CreatePrediction n os)"
      "execute t s = (Inr (Created (nextPredictionId s)), s')"
      "createPrediction a ts n os s = Inr (nextPredictionId s, s')"
      "placed (t, Inr (Created (nextPredictionId s))) = []"
      "created (t, Inr (Created (nextPredictionId s))) =
         [\<lparr>id' = nextPredictionId s, name = n, options = os, creator = a, createdAt = ts\<rparr>]"
  | (bet) a v ts p x pr s' where "t = Tx a v ts (PlaceEncryptedBet p (ExternalEuint8 x) pr)"
      "execute t s = (Inr Placed, s')"
      "placeEncryptedBet a v p (ExternalEuint8 x) pr (s\<lparr>balance := balance s + unat v\<rparr>) = Inr s'"
      "placed (t, Inr Placed) = [\<lparr>on_prediction = p, bettor = a, stake = v, selected = x\<rparr>]"
      "created (t, Inr Placed) = []"
proof (cases t)
  case (Tx a v ts c)
  show ?thesis
  proof (cases c)
    case (CreatePrediction n os)
    show ?thesis
    proof (cases "v \<noteq> 0")
      case True
      then have "execute t s = (Inl NotPayable, s)"
        by (simp add: execute_def Tx CreatePrediction)
      then show ?thesis by (rule revert)
    next
      case False
      show ?thesis
      proof (cases "createPrediction a ts n os s")
        case (Inl e)
        then have "execute t s = (Inl e, s)"
          using False by (simp add: execute_def Tx CreatePrediction)
        then show ?thesis by (rule revert)
      next
        case (Inr r)
        obtain i s' where r: "r = (i, s')" by (cases r)
        have i: "i = nextPredictionId s"
          using Inr r by (simp add: createPrediction_Inr)
        show ?thesis
          using False Inr r i
          by (intro create [of a ts n os s']) (simp_all add: execute_def Tx CreatePrediction)
      qed
    qed
  next
    case (PlaceEncryptedBet p ext pr)
    obtain x where ext: "ext = ExternalEuint8 x" by (cases ext)
    show ?thesis
    proof (cases "placeEncryptedBet a v p ext pr (s\<lparr>balance := balance s + unat v\<rparr>)")
      case (Inl e)
      then have "execute t s = (Inl e, s)"
        by (simp add: execute_def Tx PlaceEncryptedBet)
      then show ?thesis by (rule revert)
    next
      case (Inr s')
      then show ?thesis
        using ext
        by (intro bet [of a v ts p x pr s']) (simp_all add: execute_def Tx PlaceEncryptedBet)
    qed
  next
    case ListPredictions
    have "(\<exists>e. execute t s = (Inl e, s)) \<or>
          (\<exists>r. execute t s = (Inr r, s) \<and> placed (t, Inr r) = [] \<and> created (t, Inr r) = [])"
      by (simp add: execute_def Tx ListPredictions)
    then show ?thesis using revert view by blast
  next
    case (GetPredictionMetadata p)
    have "(\<exists>e. execute t s = (Inl e, s)) \<or>
          (\<exists>r. execute t s = (Inr r, s) \<and> placed (t, Inr r) = [] \<and> created (t, Inr r) = [])"
      by (simp add: execute_def Tx GetPredictionMetadata split: sum.splits)
    then show ?thesis using revert view by blast
  next
    case (GetEncryptedTotals p)
    have "(\<exists>e. execute t s = (Inl e, s)) \<or>
          (\<exists>r. execute t s = (Inr r, s) \<and> placed (t, Inr r) = [] \<and> created (t, Inr r) = [])"
      by (simp add: execute_def Tx GetEncryptedTotals split: sum.splits prod.splits)
    then show ?thesis using revert view by blast
  next
    case (GetUserBet p u)
    have "(\<exists>e. execute t s = (Inl e, s)) \<or>
          (\<exists>r. execute t s = (Inr r, s) \<and> placed (t, Inr r) = [] \<and> created (t, Inr r) = [])"
      by (simp add: execute_def Tx GetUserBet split: sum.splits prod.splits)
    then show ?thesis using revert view by blast
  next
    case GetPredictionCount
    have "(\<exists>e. execute t s = (Inl e, s)) \<or>
          (\<exists>r. execute t s = (Inr r, s) \<and> placed (t, Inr r) = [] \<and> created (t, Inr r) = [])"
      by (simp add: execute_def Tx GetPredictionCount)
    then show ?thesis using revert view by blast
  qed
qed

section \<open>Invariants of the reachable states\<close>

lemma consistent_deployed: "consistent deployed"
  by (simp add: consistent_def deployed_def zero_Prediction_def)

lemma consistent_fresh:
  assumes "consistent s"
  shows "nextPredictionId s \<notin> set (predictionIds s)"
    and "predictions s (nextPredictionId s) = zero_Prediction"
proof -
  have "unat (nextPredictionId s) \<notin> set (map unat (predictionIds s))"
    using assms by (simp add: consistent_def)
  then show "nextPredictionId s \<notin> set (predictionIds s)" by auto
  then show "predictions s (nextPredictionId s) = zero_Prediction"
    using assms by (simp add: consistent_def)
qed

lemma unat_next:
  fixes x :: uint256
  assumes "x \<noteq> - 1"
  shows "unat (x + 1) = Suc (unat x)"
proof -
  have "1 + x \<noteq> 0"
  proof
    assume "1 + x = 0"
    then have "x = - 1" by (simp add: eq_neg_iff_add_eq_0 add.commute)
    then show False using assms by simp
  qed
  then have "unat (1 + x) = Suc (unat x)" by (rule unatSuc)
  then show ?thesis by (simp add: add.commute)
qed

lemma consistent_create:
  assumes w: "consistent s" and c: "createPrediction a ts n os s = Inr (i, s')"
  shows "consistent s'"
proof -
  let ?i = "nextPredictionId s"
  from c have ok: "2 \<le> length os" "length os \<le> 4" "?i \<noteq> - 1"
    and s': "s' = s\<lparr>nextPredictionId := ?i + 1,
            predictions := (predictions s)(?i := new_prediction a ts n os (predictions s ?i)),
            predictionIds := predictionIds s @ [?i],
            fhe_log := fhe_log s @ zero_ops a @ concat (replicate (length os) (zero_ops a)),
            events := events s @ [PredictionCreated ?i a n (of_nat (length os))]\<rparr>"
    by (simp_all add: createPrediction_Inr)
  have z: "predictions s ?i = zero_Prediction" by (rule consistent_fresh [OF w])
  have np: "new_prediction a ts n os zero_Prediction =
      \<lparr>Prediction.name = n, options = os,
       optionTotals = replicate (length os) (Ciphertext 0 {Account a, Anyone, ThisContract}),
       encryptedPool = Ciphertext 0 {Account a, Anyone, ThisContract},
       creator = a, createdAt = ts, exists = True\<rparr>"
    by (simp add: new_prediction_def zero_Prediction_def)
  have u: "unat ?i = Suc (length (predictionIds s))" using w by (simp add: consistent_def)
  have 1: "unat (nextPredictionId s') = Suc (length (predictionIds s'))"
    by (simp add: s' unat_next [OF ok(3)] u)
  have 2: "map unat (predictionIds s') = [1..<Suc (length (predictionIds s'))]"
    using w by (simp add: s' consistent_def u)
  have 3: "\<forall>p. Prediction.exists (predictions s' p) \<longleftrightarrow> p \<in> set (predictionIds s')"
    using w by (auto simp: s' consistent_def z np)
  have 4: "\<forall>p. \<not> Prediction.exists (predictions s' p) \<longrightarrow> predictions s' p = zero_Prediction"
    using w by (auto simp: s' consistent_def z np)
  have 5: "\<forall>p. Prediction.exists (predictions s' p) \<longrightarrow>
          length (optionTotals (predictions s' p)) = length (Prediction.options (predictions s' p)) \<and>
          2 \<le> length (Prediction.options (predictions s' p)) \<and>
          length (Prediction.options (predictions s' p)) \<le> 4"
    using w ok by (auto simp: s' consistent_def z np)
  show ?thesis
    unfolding consistent_def using 1 2 3 4 5 by blast
qed

lemma consistent_bet:
  assumes w: "consistent s" and c: "placeEncryptedBet a v p (ExternalEuint8 x) pr s = Inr s'"
  shows "consistent s'"
proof -
  from c have e: "Prediction.exists (predictions s p)"
    and s': "s' = s\<lparr>predictions := (predictions s)(p := bet_prediction a v x (predictions s p)),
            bets := (bets s)(p := (bets s p)
              (a := (bets s p a)\<lparr>encryptedAmount := amount_ct a v,
                      encryptedSelection := selection_ct a x, BetInfo.exists := True\<rparr>)),
            fhe_log := fhe_log s @ bet_ops a v (length (optionTotals (predictions s p))),
            events := events s @ [BetPlaced p a (amount_ct a v) (selection_ct a x) v]\<rparr>"
    by (simp_all add: placeEncryptedBet_Inr)
  show ?thesis
    using w e unfolding consistent_def s' by (auto simp: bet_prediction_def)
qed

lemma consistent_balance: "consistent (s\<lparr>balance := b\<rparr>) = consistent s"
  by (simp add: consistent_def)

lemma consistent_execute: "consistent s \<Longrightarrow> consistent (snd (execute t s))"
proof (cases t s rule: execute_cases)
  case (create a ts n os s')
  assume "consistent s"
  then show ?thesis using create by (simp add: consistent_create)
next
  case (bet a v ts p x pr s')
  assume "consistent s"
  then have "consistent (s\<lparr>balance := balance s + unat v\<rparr>)" by (simp add: consistent_balance)
  then show ?thesis using bet by (simp add: consistent_bet)
qed simp_all

lemma consistent_run: "consistent (run ts deployed)"
  by (induction ts rule: rev_induct) (simp_all add: consistent_deployed run_snoc consistent_execute)

lemma placed_bets_snoc:
  "placed_bets p (tr @ [e]) = placed_bets p tr @ filter (\<lambda>b. on_prediction b = p) (placed e)"
  by (simp add: placed_bets_def)

lemma placed_bets_Nil: "placed_bets p [] = []"
  by (simp add: placed_bets_def)

lemma placed_Inl: "placed (t, Inl e) = []"
  by (cases "(t, Inl e :: outcome)" rule: placed.cases) simp_all

lemma created_Inl: "created (t, Inl e) = []"
  by (cases "(t, Inl e :: outcome)" rule: created.cases) simp_all

lemma run_induct [consumes 0, case_names deployed execute]:
  assumes "P deployed []"
    and "\<And>s tr t. consistent s \<Longrightarrow> P s tr \<Longrightarrow>
           P (snd (execute t s)) (tr @ [(t, fst (execute t s))])"
  shows "P (run ts deployed) (transcript ts deployed)"
proof (induction ts rule: rev_induct)
  case Nil
  show ?case using assms(1) by simp
next
  case (snoc t ts)
  show ?case
    using assms(2) [OF consistent_run snoc.IH]
    by (simp add: run_snoc transcript_snoc)
qed

lemma bets_recorded_execute:
  assumes r: "bets_recorded s tr"
  shows "bets_recorded (snd (execute t s)) (tr @ [(t, fst (execute t s))])"
proof (cases t s rule: execute_cases)
  case (revert e)
  then show ?thesis using r by (simp add: bets_recorded_def placed_bets_snoc placed_Inl)
next
  case (view x)
  then show ?thesis using r by (simp add: bets_recorded_def placed_bets_snoc)
next
  case (create a ts n os s')
  then have s': "bets s' = bets s"
    "\<And>p. Prediction.exists (predictions s p) \<Longrightarrow> Prediction.exists (predictions s' p)"
    by (auto simp: createPrediction_Inr new_prediction_def)
  show ?thesis
    using r s' by (auto simp: bets_recorded_def placed_bets_snoc create(2,4))
next
  case (bet a v ts p x pr s')
  let ?b = "\<lparr>on_prediction = p, bettor = a, stake = v, selected = x\<rparr>"
  from bet(3) have nb: "\<not> BetInfo.exists (bets s p a)"
    and bs: "bets s' = (bets s)(p := (bets s p)
              (a := (bets s p a)\<lparr>encryptedAmount := amount_ct a v,
                      encryptedSelection := selection_ct a x, BetInfo.exists := True\<rparr>))"
    and ex: "\<And>q. Prediction.exists (predictions s' q) = Prediction.exists (predictions s q)"
    by (auto simp: placeEncryptedBet_Inr bet_prediction_def)
  have none: "bets_of a (placed_bets p tr) = []"
  proof (cases "bets_of a (placed_bets p tr)")
    case (Cons b rest)
    then have "BetInfo.exists (bets s p a)"
      using r by (simp add: bets_recorded_def stored_bet_def)
    then show ?thesis using nb by simp
  qed simp
  have z: "bets s p a = zero_BetInfo"
    using r none by (simp add: bets_recorded_def stored_bet_def)
  have pl: "\<And>q. placed_bets q (tr @ [(t, fst (execute t s))]) =
      placed_bets q tr @ (if q = p then [?b] else [])"
    by (simp add: placed_bets_snoc bet(2,4))
  have 1: "bets s' q u = stored_bet u (bets_of u (placed_bets q (tr @ [(t, fst (execute t s))])))
      \<and> length (bets_of u (placed_bets q (tr @ [(t, fst (execute t s))]))) \<le> 1" for q u
  proof (cases "q = p \<and> u = a")
    case True
    then show ?thesis
      using none by (simp add: pl bs z bets_of_def stored_bet_def zero_BetInfo_def)
  next
    case False
    then have "bets s' q u = bets s q u" by (auto simp: bs)
    moreover have "bets_of u (placed_bets q (tr @ [(t, fst (execute t s))])) =
        bets_of u (placed_bets q tr)"
      using False by (auto simp: pl bets_of_def)
    ultimately show ?thesis using r by (simp add: bets_recorded_def)
  qed
  have 2: "\<not> Prediction.exists (predictions s' q) \<Longrightarrow>
      placed_bets q (tr @ [(t, fst (execute t s))]) = []" for q
    using r bet(3) by (auto simp: pl ex bets_recorded_def placeEncryptedBet_Inr)
  show ?thesis
    unfolding bets_recorded_def using 1 2 by (simp add: bet(2))
qed

lemma bets_recorded_run: "bets_recorded (run ts deployed) (transcript ts deployed)"
proof (induction rule: run_induct)
  case deployed
  show ?case by (simp add: bets_recorded_def deployed_def placed_bets_Nil bets_of_def stored_bet_def)
next
  case (execute s tr t)
  then show ?case by (simp add: bets_recorded_execute)
qed

lemma has_empty_option_iff: "has_empty_option os \<longleftrightarrow> [] \<in> set os"
  by (induction os) auto

lemma placeEncryptedBet_Inl:
  "placeEncryptedBet a v p ext pr s = Inl e \<longleftrightarrow>
     (\<not> Prediction.exists (predictions s p) \<or> optionTotals (predictions s p) = [] \<or>
      v = 0 \<or> v > 2 ^ 64 - 1 \<or> BetInfo.exists (bets s p a) \<or> \<not> pr) \<and>
     e = (if \<not> Prediction.exists (predictions s p) then InvalidPrediction
          else if optionTotals (predictions s p) = [] then InvalidOptionsCount
          else if v = 0 \<or> v > 2 ^ 64 - 1 then InvalidBetAmount
          else if BetInfo.exists (bets s p a) then BetAlreadyPlaced
          else ProofInvalid)"
  by (cases ext)
     (auto simp: placeEncryptedBet_def FHE_fromExternal_def FHE_defs Let_def
        split: prod.splits)

lemma execute_bet_Inl:
  assumes "placeEncryptedBet a v p ext pr (s\<lparr>balance := balance s + unat v\<rparr>) = Inl e"
  shows "execute (Tx a v t (PlaceEncryptedBet p ext pr)) s = (Inl e, s)"
  using assms by (simp add: execute_def)

lemma existing_has_totals:
  assumes "Prediction.exists (predictions (run ts deployed) p)"
  shows "optionTotals (predictions (run ts deployed) p) \<noteq> []"
proof -
  have "consistent (run ts deployed)" by (rule consistent_run)
  then have "2 \<le> length (optionTotals (predictions (run ts deployed) p))"
    using assms by (simp add: consistent_def)
  then show ?thesis by auto
qed

lemma stake_sum_append: "stake_sum (xs @ ys) = stake_sum xs + stake_sum ys"
  by (simp add: stake_sum_def)

lemma on_option_append: "on_option i (xs @ ys) = on_option i xs @ on_option i ys"
  by (simp add: on_option_def)

lemma selection_eq_index:
  fixes x :: uint8
  assumes "j < 256"
  shows "x = of_nat j \<longleftrightarrow> unat x = j"
proof
  assume "x = of_nat j"
  then show "unat x = j" using assms by (simp add: unat_of_nat)
next
  assume "unat x = j"
  then show "x = of_nat j" by auto
qed

lemma totals_recorded_execute:
  assumes c: "consistent s" and b: "bets_recorded s tr" and r: "totals_recorded s tr"
  shows "totals_recorded (snd (execute t s)) (tr @ [(t, fst (execute t s))])"
proof (cases t s rule: execute_cases)
  case (revert e)
  then show ?thesis using r by (simp add: totals_recorded_def placed_bets_snoc placed_Inl)
next
  case (view x)
  then show ?thesis using r by (simp add: totals_recorded_def placed_bets_snoc)
next
  case (create a ts n os s')
  let ?i = "nextPredictionId s"
  have z: "predictions s ?i = zero_Prediction" by (rule consistent_fresh [OF c])
  then have none: "placed_bets ?i tr = []"
    using b by (simp add: bets_recorded_def zero_Prediction_def)
  have ps: "predictions s' = (predictions s)(?i := new_prediction a ts n os zero_Prediction)"
    using create(3) z by (simp add: createPrediction_Inr)
  have pl: "\<And>q. placed_bets q (tr @ [(t, Inr (Created ?i))]) = placed_bets q tr"
    by (simp add: placed_bets_snoc create(4))
  have "decrypt (encryptedPool (predictions s' q)) = stake_sum (placed_bets q tr) \<and>
        (\<forall>i < length (optionTotals (predictions s' q)).
            decrypt (optionTotals (predictions s' q) ! i) =
              stake_sum (on_option i (placed_bets q tr)))" for q
  proof (cases "q = ?i")
    case True
    then show ?thesis
      by (simp add: ps none new_prediction_def zero_Prediction_def stake_sum_def on_option_def)
  next
    case False
    then show ?thesis using r by (simp add: ps totals_recorded_def)
  qed
  then show ?thesis
    unfolding totals_recorded_def by (simp add: pl create(2))
next
  case (bet a v ts p x pr s')
  let ?b = "\<lparr>on_prediction = p, bettor = a, stake = v, selected = x\<rparr>"
  let ?old = "predictions s p"
  have ps: "predictions s' = (predictions s)(p := bet_prediction a v x ?old)"
    and ex: "Prediction.exists ?old"
    using bet(3) by (simp_all add: placeEncryptedBet_Inr)
  have len: "length (optionTotals ?old) \<le> 4"
    using c ex by (simp add: consistent_def)
  have pl: "\<And>q. placed_bets q (tr @ [(t, Inr Placed)]) =
      placed_bets q tr @ (if q = p then [?b] else [])"
    by (simp add: placed_bets_snoc bet(4))
  have "decrypt (encryptedPool (predictions s' q)) =
          stake_sum (placed_bets q tr @ (if q = p then [?b] else [])) \<and>
        (\<forall>i < length (optionTotals (predictions s' q)).
            decrypt (optionTotals (predictions s' q) ! i) =
              stake_sum (on_option i (placed_bets q tr @ (if q = p then [?b] else []))))" for q
  proof (cases "q = p")
    case True
    have pool: "decrypt (encryptedPool (predictions s' p)) =
        stake_sum (placed_bets p tr) + ucast v"
      using r by (simp add: ps bet_prediction_def totals_recorded_def)
    have tot: "decrypt (optionTotals (predictions s' p) ! i) =
        stake_sum (on_option i (placed_bets p tr)) + (if unat x = i then ucast v else 0)"
      if "i < length (optionTotals ?old)" for i
    proof -
      have "i < 256" using that len by simp
      then have "(x = of_nat i) = (unat x = i)" by (rule selection_eq_index)
      then show ?thesis
        using r that by (simp add: ps bet_prediction_def totals_recorded_def)
    qed
    show ?thesis
      using pool tot
      by (simp add: True stake_sum_append on_option_append)
         (simp add: ps bet_prediction_def stake_sum_def on_option_def)
  next
    case False
    then show ?thesis using r by (simp add: ps totals_recorded_def)
  qed
  then show ?thesis
    unfolding totals_recorded_def by (simp add: pl bet(2))
qed

lemma totals_recorded_run: "totals_recorded (run ts deployed) (transcript ts deployed)"
proof -
  have "bets_recorded (run ts deployed) (transcript ts deployed) \<and>
        totals_recorded (run ts deployed) (transcript ts deployed)"
  proof (induction rule: run_induct)
    case deployed
    show ?case
      by (simp add: bets_recorded_def totals_recorded_def deployed_def placed_bets_Nil
          bets_of_def stored_bet_def zero_Prediction_def stake_sum_def on_option_def)
  next
    case (execute s tr t)
    then show ?case by (simp add: bets_recorded_execute totals_recorded_execute)
  qed
  then show ?thesis by simp
qed

lemma sum_one_index:
  fixes w :: uint64
  shows "sum_list (map (\<lambda>i. if k = i then w else 0) [0..<n]) = (if k < n then w else 0)"
  by (induction n) auto

lemma sum_on_options:
  assumes "\<forall>b \<in> set bs. unat (selected b) < n"
  shows "sum_list (map (\<lambda>i. stake_sum (on_option i bs)) [0..<n]) = stake_sum bs"
  using assms
proof (induction bs)
  case Nil
  show ?case by (simp add: stake_sum_def on_option_def)
next
  case (Cons b bs)
  have "stake_sum (on_option i (b # bs)) =
      (if unat (selected b) = i then ucast (stake b) else 0) + stake_sum (on_option i bs)" for i
    by (simp add: stake_sum_def on_option_def)
  then have "sum_list (map (\<lambda>i. stake_sum (on_option i (b # bs))) [0..<n]) =
      sum_list (map (\<lambda>i. if unat (selected b) = i then ucast (stake b) else 0) [0..<n]) +
      sum_list (map (\<lambda>i. stake_sum (on_option i bs)) [0..<n])"
    by (simp add: sum_list_addf)
  also have "\<dots> = ucast (stake b) + stake_sum bs"
    using Cons by (simp add: sum_one_index)
  finally show ?case by (simp add: stake_sum_def)
qed

lemma pool_and_totals_words:
  assumes "s = run ts deployed" and "bs = placed_bets p (transcript ts deployed)"
  shows "decrypt (encryptedPool (predictions s p)) = stake_sum bs \<and>
         (\<forall>i < length (optionTotals (predictions s p)).
            decrypt (optionTotals (predictions s p) ! i) = stake_sum (on_option i bs)) \<and>
         ((\<forall>b \<in> set bs. unat (selected b) < length (Prediction.options (predictions s p))) \<longrightarrow>
            decrypt (encryptedPool (predictions s p)) =
              sum_list (map decrypt (optionTotals (predictions s p))))"
proof -
  let ?P = "predictions s p"
  have r: "totals_recorded s (transcript ts deployed)"
    using assms(1) by (simp add: totals_recorded_run)
  have 1: "decrypt (encryptedPool ?P) = stake_sum bs"
    using r assms(2) by (simp add: totals_recorded_def)
  have 2: "\<forall>i < length (optionTotals ?P).
            decrypt (optionTotals ?P ! i) = stake_sum (on_option i bs)"
    using r assms(2) by (simp add: totals_recorded_def)
  have 3: "decrypt (encryptedPool ?P) = sum_list (map decrypt (optionTotals ?P))"
    if a: "\<forall>b \<in> set bs. unat (selected b) < length (Prediction.options ?P)"
  proof (cases "bs = []")
    case True
    have "map decrypt (optionTotals ?P) =
        map (\<lambda>i. decrypt (optionTotals ?P ! i)) [0..<length (optionTotals ?P)]"
      by (rule nth_equalityI) simp_all
    also have "\<dots> = map (\<lambda>i. 0) [0..<length (optionTotals ?P)]"
      using 2 True by (simp add: stake_sum_def on_option_def)
    finally show ?thesis using 1 True by (simp add: stake_sum_def)
  next
    case False
    then have "Prediction.exists ?P"
      using bets_recorded_run [of ts] assms by (auto simp: bets_recorded_def)
    then have len: "length (optionTotals ?P) = length (Prediction.options ?P)"
      using consistent_run [of ts] assms(1) by (simp add: consistent_def)
    have "map decrypt (optionTotals ?P) =
        map (\<lambda>i. decrypt (optionTotals ?P ! i)) [0..<length (optionTotals ?P)]"
      by (rule nth_equalityI) simp_all
    also have "\<dots> = map (\<lambda>i. stake_sum (on_option i bs)) [0..<length (optionTotals ?P)]"
      using 2 by simp
    finally have "sum_list (map decrypt (optionTotals ?P)) = stake_sum bs"
      using a len by (simp add: sum_on_options)
    then show ?thesis using 1 by simp
  qed
  show ?thesis using 1 2 3 by blast
qed

lemma unat_ucast_stake:
  fixes v :: uint256
  shows "unat (ucast v :: uint64) = unat v mod 2 ^ 64"
proof -
  have "(ucast v :: uint64) = of_nat (unat v)" by simp
  then show ?thesis by (simp only: unat_of_nat) simp
qed

lemma unat_stake_sum: "unat (stake_sum bs) = staked bs mod 2 ^ 64"
proof (induction bs)
  case Nil
  show ?case by (simp add: stake_sum_def staked_def)
next
  case (Cons b bs)
  have "unat (stake_sum (b # bs)) = unat ((ucast (stake b) :: uint64) + stake_sum bs)"
    by (simp add: stake_sum_def)
  also have "\<dots> = (unat (ucast (stake b) :: uint64) + unat (stake_sum bs)) mod 2 ^ 64"
    by (simp add: unat_word_ariths)
  also have "\<dots> = (unat (stake b) mod 2 ^ 64 + staked bs mod 2 ^ 64) mod 2 ^ 64"
    by (simp only: unat_ucast_stake Cons.IH)
  also have "\<dots> = (unat (stake b) + staked bs) mod 2 ^ 64"
    by (simp add: mod_add_eq)
  finally show ?case by (simp add: staked_def)
qed

lemma unat_sum_list:
  fixes ws :: "uint64 list"
  shows "unat (sum_list ws) = sum_list (map unat ws) mod 2 ^ 64"
proof (induction ws)
  case Nil
  show ?case by simp
next
  case (Cons w ws)
  have "unat (sum_list (w # ws)) = (unat w + unat (sum_list ws)) mod 2 ^ 64"
    by (simp add: unat_word_ariths)
  also have "\<dots> = (unat w + sum_list (map unat ws) mod 2 ^ 64) mod 2 ^ 64"
    by (simp only: Cons.IH)
  also have "\<dots> = (unat w + sum_list (map unat ws)) mod 2 ^ 64"
    by (simp add: mod_add_right_eq)
  finally show ?case by simp
qed

lemma copy_from_eq:
  "length copy = length source \<Longrightarrow> copy_from i source copy = take i copy @ drop i source"
proof (induction "length source - i" arbitrary: i copy)
  case 0
  then show ?case by (subst copy_from.simps) simp
next
  case (Suc n)
  then have lt: "i < length source" by simp
  have n: "n = length source - (i + 1)" using Suc.hyps(2) by simp
  have len: "length (copy[i := source ! i]) = length source" using Suc.prems by simp
  have ltc: "i < length copy" using lt Suc.prems by simp
  have "copy_from i source copy = copy_from (i + 1) source (copy[i := source ! i])"
    using lt by (subst copy_from.simps) simp
  also have "\<dots> = take (i + 1) (copy[i := source ! i]) @ drop (i + 1) source"
    by (rule Suc.hyps(1) [OF n len])
  also have "\<dots> = take i copy @ drop i source"
    using lt ltc by (simp add: take_Suc_conv_app_nth Cons_nth_drop_Suc)
  finally show ?case .
qed

lemma copyOptions_eq: "copyOptions source = source"
  by (simp add: copyOptions_def copy_from_eq)

lemma copyEncryptedTotals_eq: "copyEncryptedTotals source = source"
  by (simp add: copyEncryptedTotals_def copy_from_eq)

lemma list_from_eq:
  assumes "\<forall>p \<in> set (predictionIds s). Prediction.exists (predictions s p)"
    and "length summaries = length (predictionIds s)"
  shows "list_from s i summaries =
     take i summaries @
     map (\<lambda>p. summary_of p (predictions s p)) (drop i (predictionIds s))"
  using assms(2)
proof (induction "length (predictionIds s) - i" arbitrary: i summaries)
  case 0
  then show ?case by (subst list_from.simps) simp
next
  case (Suc n)
  let ?ids = "predictionIds s"
  let ?new = "summaries[i := summary_of (?ids ! i) (predictions s (?ids ! i))]"
  from Suc have lt: "i < length ?ids" by simp
  have n: "n = length ?ids - (i + 1)" using Suc.hyps(2) by simp
  have len: "length ?new = length ?ids" using Suc.prems by simp
  have lts: "i < length summaries" using lt Suc.prems by simp
  have ex: "Prediction.exists (predictions s (?ids ! i))"
    using assms(1) lt by simp
  have "list_from s i summaries = list_from s (i + 1) ?new"
    using lt ex by (subst list_from.simps) simp
  also have "\<dots> = take (i + 1) ?new @
      map (\<lambda>p. summary_of p (predictions s p)) (drop (i + 1) ?ids)"
    by (rule Suc.hyps(1) [OF n len])
  also have "\<dots> = take i summaries @
      map (\<lambda>p. summary_of p (predictions s p)) (drop i ?ids)"
    using lt lts by (simp add: take_Suc_conv_app_nth flip: Cons_nth_drop_Suc)
  finally show ?case .
qed

lemma creations_snoc: "creations (tr @ [e]) = creations tr @ created e"
  by (simp add: creations_def)

lemma summary_of_bet:
  "summary_of q (bet_prediction a v x old) = summary_of q old"
  by (simp add: summary_of_def bet_prediction_def)

lemma creations_recorded_execute:
  assumes c: "consistent s" and r: "creations_recorded s tr"
  shows "creations_recorded (snd (execute t s)) (tr @ [(t, fst (execute t s))])"
proof (cases t s rule: execute_cases)
  case (revert e)
  then show ?thesis using r by (simp add: creations_recorded_def creations_snoc created_Inl)
next
  case (view x)
  then show ?thesis using r by (simp add: creations_recorded_def creations_snoc)
next
  case (create a ts n os s')
  let ?i = "nextPredictionId s"
  have z: "predictions s ?i = zero_Prediction"
    and fresh: "?i \<notin> set (predictionIds s)"
    by (rule consistent_fresh [OF c])+
  have ps: "predictions s' = (predictions s)(?i := new_prediction a ts n os zero_Prediction)"
    and ids: "predictionIds s' = predictionIds s @ [?i]"
    using create(3) z by (simp_all add: createPrediction_Inr)
  have old: "map (\<lambda>p. summary_of p (predictions s' p)) (predictionIds s) =
      map (\<lambda>p. summary_of p (predictions s p)) (predictionIds s)"
    by (rule map_cong) (use fresh in \<open>auto simp: ps\<close>)
  have new: "summary_of ?i (predictions s' ?i) =
      \<lparr>id' = ?i, name = n, options = os, creator = a, createdAt = ts\<rparr>"
    by (simp add: ps summary_of_def new_prediction_def zero_Prediction_def copyOptions_eq)
  show ?thesis
    using r
    by (simp add: creations_recorded_def creations_snoc create(2,5) ids old new)
next
  case (bet a v ts p x pr s')
  have ps: "predictions s' = (predictions s)(p := bet_prediction a v x (predictions s p))"
    and ids: "predictionIds s' = predictionIds s"
    using bet(3) by (simp_all add: placeEncryptedBet_Inr)
  have old: "map (\<lambda>q. summary_of q (predictions s' q)) (predictionIds s) =
      map (\<lambda>q. summary_of q (predictions s q)) (predictionIds s)"
    by (rule map_cong) (auto simp: ps summary_of_bet)
  show ?thesis
    using r by (simp add: creations_recorded_def creations_snoc bet(2,5) ids old)
qed

lemma creations_recorded_run: "creations_recorded (run ts deployed) (transcript ts deployed)"
proof (induction rule: run_induct)
  case deployed
  show ?case by (simp add: creations_recorded_def deployed_def creations_def)
next
  case (execute s tr t)
  then show ?case by (simp add: creations_recorded_execute)
qed

lemma ids_creations:
  "predictionIds (run ts deployed) = map id' (creations (transcript ts deployed))"
proof -
  have "map id' (creations (transcript ts deployed)) =
      map id' (map (\<lambda>p. summary_of p (predictions (run ts deployed) p))
                 (predictionIds (run ts deployed)))"
    using creations_recorded_run [of ts] by (simp add: creations_recorded_def)
  also have "\<dots> = predictionIds (run ts deployed)"
    by (simp add: summary_of_def comp_def)
  finally show ?thesis by simp
qed

lemma listPredictions_run:
  "listPredictions (run ts deployed) = creations (transcript ts deployed)"
proof -
  let ?s = "run ts deployed"
  have "\<forall>p \<in> set (predictionIds ?s). Prediction.exists (predictions ?s p)"
    using consistent_run [of ts] by (simp add: consistent_def)
  then have "listPredictions ?s =
      map (\<lambda>p. summary_of p (predictions ?s p)) (predictionIds ?s)"
    by (simp add: listPredictions_def list_from_eq)
  then show ?thesis
    using creations_recorded_run [of ts] by (simp add: creations_recorded_def)
qed

lemma exists_iff_created:
  "Prediction.exists (predictions (run ts deployed) p) \<longleftrightarrow>
     p \<in> id' ` set (creations (transcript ts deployed))"
proof -
  have "Prediction.exists (predictions (run ts deployed) p) \<longleftrightarrow>
      p \<in> set (predictionIds (run ts deployed))"
    using consistent_run [of ts] by (simp add: consistent_def)
  then show ?thesis by (simp add: ids_creations)
qed

section \<open>The claims\<close>

subsection \<open>C1\<close>

text \<open>
  C1, as stated, fails. The selection is an encrypted 8-bit value that the contract cannot
  compare with the number of options: a bet whose selection is 7 on a prediction with two
  options is placed, its stake enters the pool and no option total.
\<close>

theorem totals_accounting_counterexample:
  "map snd (transcript [create_weather, alice_out_of_range] deployed) =
     [Inr (Created 1), Inr Placed] \<and>
   decrypt (encryptedPool (predictions (run [create_weather, alice_out_of_range] deployed) 1))
     = 5 \<and>
   map decrypt (optionTotals (predictions (run [create_weather, alice_out_of_range] deployed) 1))
     = [0, 0] \<and>
   decrypt (encryptedPool (predictions (run [create_weather, alice_out_of_range] deployed) 1))
     \<noteq> sum_list (map decrypt
         (optionTotals (predictions (run [create_weather, alice_out_of_range] deployed) 1)))"
  by code_simp

text \<open>
  C1 (amended). In every state the contract can reach and for every prediction, with the
  sums taken modulo $2^{64}$, the width of the ciphertexts: the pool decrypts to the sum of
  the stakes of all bets placed on the prediction; each option total decrypts to the sum of
  the stakes of the bets whose selection is its index; and the pool decrypts to the sum of
  the decrypted option totals when the selection of every bet placed on the prediction is
  below the number of options.
\<close>

theorem totals_accounting:
  assumes "s = run ts deployed" and "bs = placed_bets p (transcript ts deployed)"
  shows "unat (decrypt (encryptedPool (predictions s p))) = staked bs mod 2 ^ 64 \<and>
         (\<forall>i < length (optionTotals (predictions s p)).
            unat (decrypt (optionTotals (predictions s p) ! i)) =
              staked (on_option i bs) mod 2 ^ 64) \<and>
         ((\<forall>b \<in> set bs. unat (selected b) < length (Prediction.options (predictions s p))) \<longrightarrow>
            unat (decrypt (encryptedPool (predictions s p))) =
              sum_list (map unat (map decrypt (optionTotals (predictions s p)))) mod 2 ^ 64)"
proof -
  note w = pool_and_totals_words [OF assms]
  have 1: "unat (decrypt (encryptedPool (predictions s p))) = staked bs mod 2 ^ 64"
    using w by (simp add: unat_stake_sum)
  have 2: "\<forall>i < length (optionTotals (predictions s p)).
            unat (decrypt (optionTotals (predictions s p) ! i)) =
              staked (on_option i bs) mod 2 ^ 64"
    using w by (simp add: unat_stake_sum)
  have 3: "unat (decrypt (encryptedPool (predictions s p))) =
      sum_list (map unat (map decrypt (optionTotals (predictions s p)))) mod 2 ^ 64"
    if "\<forall>b \<in> set bs. unat (selected b) < length (Prediction.options (predictions s p))"
  proof -
    have "decrypt (encryptedPool (predictions s p)) =
        sum_list (map decrypt (optionTotals (predictions s p)))"
      using w that by blast
    then show ?thesis by (simp add: unat_sum_list)
  qed
  show ?thesis using 1 2 3 by blast
qed

text \<open>
  The scenario of the specification: on ``Match'', Alice stakes 2 on option 0 and Bob 3 on
  option 2; the totals are 2, 0 and 3 and the pool is 5.
\<close>

theorem totals_accounting_witness:
  "map selected (placed_bets 1 (transcript [create_match, alice_on_A, bob_on_C] deployed)) =
     [0, 2] \<and>
   length (Prediction.options (predictions (run [create_match, alice_on_A, bob_on_C] deployed) 1))
     = 3 \<and>
   2 < length (optionTotals (predictions (run [create_match, alice_on_A, bob_on_C] deployed) 1)) \<and>
   unat (decrypt (encryptedPool (predictions (run [create_match, alice_on_A, bob_on_C] deployed) 1)))
     = 5 \<and>
   unat (decrypt (optionTotals (predictions (run [create_match, alice_on_A, bob_on_C] deployed) 1) ! 2))
     = 3 \<and>
   sum_list (map unat (map decrypt
      (optionTotals (predictions (run [create_match, alice_on_A, bob_on_C] deployed) 1)))) mod 2 ^ 64
     = 5"
proof -
  let ?ts = "[create_match, alice_on_A, bob_on_C]"
  let ?bs = "placed_bets 1 (transcript ?ts deployed)"
  have sel: "map selected ?bs = [0, 2]"
    and opts: "length (Prediction.options (predictions (run ?ts deployed) 1)) = 3"
    by code_simp+
  have "\<forall>x \<in> set (map selected ?bs). unat x < 3"
    by (simp only: sel) simp
  then have 1: "\<forall>b \<in> set ?bs. unat (selected b) <
      length (Prediction.options (predictions (run ?ts deployed) 1))"
    by (simp only: opts) simp
  have 2: "2 < length (optionTotals (predictions (run ?ts deployed) 1))"
    by code_simp
  have 3: "staked ?bs = 5" "staked (on_option 2 ?bs) = 3"
    by code_simp+
  note t = totals_accounting [OF refl refl, of ?ts 1]
  from t have "unat (decrypt (encryptedPool (predictions (run ?ts deployed) 1))) =
      staked ?bs mod 2 ^ 64"
    by (rule conjunct1)
  also have "\<dots> = 5" by (simp only: 3) simp
  finally have a: "unat (decrypt (encryptedPool (predictions (run ?ts deployed) 1))) = 5" .
  from t 2 have "unat (decrypt (optionTotals (predictions (run ?ts deployed) 1) ! 2)) =
      staked (on_option 2 ?bs) mod 2 ^ 64"
    by blast
  also have "\<dots> = 3" by (simp only: 3) simp
  finally have b: "unat (decrypt (optionTotals (predictions (run ?ts deployed) 1) ! 2)) = 3" .
  from t 1 have "unat (decrypt (encryptedPool (predictions (run ?ts deployed) 1))) =
      sum_list (map unat (map decrypt (optionTotals (predictions (run ?ts deployed) 1))))
        mod 2 ^ 64"
    by blast
  with a have c: "sum_list (map unat (map decrypt
      (optionTotals (predictions (run ?ts deployed) 1)))) mod 2 ^ 64 = 5"
    by (simp only:)
  show ?thesis
    using sel opts 2 a b c by (intro conjI)
qed

subsection \<open>C2\<close>

text \<open>
  C2. In a state the contract can reach, two calls of \<open>placeEncryptedBet\<close> that differ
  only in the encrypted selection fail alike or succeed alike, and when they succeed they
  send the same requests to the coprocessor, in the same order: the requests of
  \<open>bet_ops\<close>, whose loop part has one equality test, one select, one addition and the
  three grants for every option index from 0 to \<open>options.length - 1\<close>.
\<close>

theorem oblivious_update:
  assumes "s = run ts deployed"
  shows "(placeEncryptedBet a v p (ExternalEuint8 xa) pr s = Inl e \<longleftrightarrow>
            placeEncryptedBet a v p (ExternalEuint8 xb) pr s = Inl e) \<and>
         (placeEncryptedBet a v p (ExternalEuint8 xa) pr s = Inr sa \<and>
          placeEncryptedBet a v p (ExternalEuint8 xb) pr s = Inr sb \<longrightarrow>
            fhe_log sa = fhe_log sb \<and>
            fhe_log sa =
              fhe_log s @ bet_ops a v (length (Prediction.options (predictions s p))))"
proof -
  have 1: "placeEncryptedBet a v p (ExternalEuint8 xa) pr s = Inl e \<longleftrightarrow>
            placeEncryptedBet a v p (ExternalEuint8 xb) pr s = Inl e"
    by (simp only: placeEncryptedBet_Inl)
  have 2: "fhe_log sa = fhe_log sb \<and>
      fhe_log sa = fhe_log s @ bet_ops a v (length (Prediction.options (predictions s p)))"
    if r: "placeEncryptedBet a v p (ExternalEuint8 xa) pr s = Inr sa"
      "placeEncryptedBet a v p (ExternalEuint8 xb) pr s = Inr sb"
  proof -
    have ex: "Prediction.exists (predictions s p)"
      using r(1) by (simp add: placeEncryptedBet_Inr)
    have len: "length (optionTotals (predictions s p)) =
        length (Prediction.options (predictions s p))"
      using consistent_run [of ts] assms ex by (simp add: consistent_def)
    have "fhe_log sa = fhe_log s @ bet_ops a v (length (optionTotals (predictions s p)))"
      "fhe_log sb = fhe_log s @ bet_ops a v (length (optionTotals (predictions s p)))"
      using r by (simp_all add: placeEncryptedBet_Inr)
    then show ?thesis by (simp add: len)
  qed
  show ?thesis using 1 2 by blast
qed

text \<open>
  On ``Weather'', Alice staking 5 on option 0 or on option 1: the same 26 requests, the
  loop's seven once for index 0 and once for index 1.
\<close>

theorem oblivious_update_witness:
  "\<not> isl (placeEncryptedBet alice 5 1 (ExternalEuint8 0) True (run [create_weather] deployed)) \<and>
   \<not> isl (placeEncryptedBet alice 5 1 (ExternalEuint8 1) True (run [create_weather] deployed)) \<and>
   fhe_log (projr (placeEncryptedBet alice 5 1 (ExternalEuint8 0) True
                     (run [create_weather] deployed))) =
   fhe_log (projr (placeEncryptedBet alice 5 1 (ExternalEuint8 1) True
                     (run [create_weather] deployed))) \<and>
   fhe_log (projr (placeEncryptedBet alice 5 1 (ExternalEuint8 0) True
                     (run [create_weather] deployed))) =
   fhe_log (run [create_weather] deployed) @
     [OpFromExternal, OpAllowThis, OpAllow alice,
      OpAsEuint64 5, OpAllowThis, OpAllow alice,
      OpAdd, OpAllowThis, OpMakePubliclyDecryptable, OpAllow alice,
      OpAsEuint64 0, OpAllowThis,
      OpAsEuint8 0, OpEq, OpSelect, OpAdd, OpAllowThis, OpMakePubliclyDecryptable,
      OpAllow alice,
      OpAsEuint8 1, OpEq, OpSelect, OpAdd, OpAllowThis, OpMakePubliclyDecryptable,
      OpAllow alice]"
proof -
  let ?s = "run [create_weather] deployed"
  let ?r0 = "placeEncryptedBet alice 5 1 (ExternalEuint8 0) True ?s"
  let ?r1 = "placeEncryptedBet alice 5 1 (ExternalEuint8 1) True ?s"
  have 0: "\<not> isl ?r0" and 1: "\<not> isl ?r1" by code_simp+
  have n: "length (Prediction.options (predictions ?s 1)) = 2" by code_simp
  have r0: "?r0 = Inr (projr ?r0)" using 0 by (cases ?r0) auto
  have r1: "?r1 = Inr (projr ?r1)" using 1 by (cases ?r1) auto
  have ops: "bet_ops alice 5 2 =
     [OpFromExternal, OpAllowThis, OpAllow alice,
      OpAsEuint64 5, OpAllowThis, OpAllow alice,
      OpAdd, OpAllowThis, OpMakePubliclyDecryptable, OpAllow alice,
      OpAsEuint64 0, OpAllowThis,
      OpAsEuint8 0, OpEq, OpSelect, OpAdd, OpAllowThis, OpMakePubliclyDecryptable,
      OpAllow alice,
      OpAsEuint8 1, OpEq, OpSelect, OpAdd, OpAllowThis, OpMakePubliclyDecryptable,
      OpAllow alice]"
    by (simp add: bet_ops_def loop_ops_def upt_rec)
  note o = oblivious_update [OF refl, where a = alice and v = 5 and p = 1 and xa = 0
      and xb = 1 and pr = True and ts = "[create_weather]" and sa = "projr ?r0"
      and sb = "projr ?r1"]
  from o have imp: "?r0 = Inr (projr ?r0) \<and> ?r1 = Inr (projr ?r1) \<longrightarrow>
      fhe_log (projr ?r0) = fhe_log (projr ?r1) \<and>
      fhe_log (projr ?r0) =
        fhe_log ?s @ bet_ops alice 5 (length (Prediction.options (predictions ?s 1)))"
    by (rule conjunct2)
  have "fhe_log (projr ?r0) = fhe_log (projr ?r1) \<and>
      fhe_log (projr ?r0) =
        fhe_log ?s @ bet_ops alice 5 (length (Prediction.options (predictions ?s 1)))"
    by (rule mp [OF imp]) (rule conjI [OF r0 r1])
  then have "fhe_log (projr ?r0) = fhe_log (projr ?r1)"
    and "fhe_log (projr ?r0) = fhe_log ?s @ bet_ops alice 5 2"
    unfolding n by (rule conjunct1, rule conjunct2)
  then show ?thesis
    unfolding ops using 0 1 by (intro conjI)
qed

subsection \<open>C3\<close>

text \<open>
  C3, as stated, promises \<open>BetAlreadyPlaced\<close> for any further call. The amount is checked
  before the stored bet: a further call with no value attached fails with
  \<open>InvalidBetAmount\<close>.
\<close>

theorem second_bet_rejected_counterexample:
  "map snd (transcript [create_weather, alice_bets, alice_again 0] deployed) =
     [Inr (Created 1), Inr Placed, Inl InvalidBetAmount]"
  by code_simp

text \<open>
  C3 (amended). Once an identity has placed a bet on a prediction, every further call of
  \<open>placeEncryptedBet\<close> by it on that prediction fails and leaves the whole state
  unchanged: with \<open>InvalidBetAmount\<close> when the attached value is zero or above
  $2^{64} - 1$, with \<open>BetAlreadyPlaced\<close> otherwise.
\<close>

theorem second_bet_rejected:
  assumes "s = run ts deployed"
    and "b \<in> set (placed_bets p (transcript ts deployed))" and "bettor b = a"
  shows "execute (Tx a v t (PlaceEncryptedBet p ext pr)) s =
           (Inl (if v = 0 \<or> v > 2 ^ 64 - 1 then InvalidBetAmount else BetAlreadyPlaced), s)"
proof -
  have r: "bets_recorded s (transcript ts deployed)"
    using assms(1) by (simp add: bets_recorded_run)
  have ne: "placed_bets p (transcript ts deployed) \<noteq> []" using assms(2) by auto
  then have ex: "Prediction.exists (predictions s p)"
    using r by (auto simp: bets_recorded_def)
  then have tot: "optionTotals (predictions s p) \<noteq> []"
    using assms(1) existing_has_totals by simp
  have "b \<in> set (bets_of a (placed_bets p (transcript ts deployed)))"
    using assms(2,3) by (simp add: bets_of_def)
  then obtain c rest where "bets_of a (placed_bets p (transcript ts deployed)) = c # rest"
    by (cases "bets_of a (placed_bets p (transcript ts deployed))") auto
  then have be: "BetInfo.exists (bets s p a)"
    using r by (simp add: bets_recorded_def stored_bet_def)
  have "placeEncryptedBet a v p ext pr (s\<lparr>balance := balance s + unat v\<rparr>) =
      Inl (if v = 0 \<or> v > 2 ^ 64 - 1 then InvalidBetAmount else BetAlreadyPlaced)"
    using ex tot be by (simp add: placeEncryptedBet_Inl)
  then show ?thesis by (rule execute_bet_Inl)
qed

text \<open>
  Alice's second bet on ``Weather'', with a valid stake.
\<close>

theorem second_bet_rejected_witness:
  "\<lparr>on_prediction = 1, bettor = alice, stake = 5, selected = 1\<rparr>
     \<in> set (placed_bets 1 (transcript [create_weather, alice_bets] deployed)) \<and>
   execute (alice_again 7) (run [create_weather, alice_bets] deployed) =
     (Inl BetAlreadyPlaced, run [create_weather, alice_bets] deployed)"
proof -
  have 1: "\<lparr>on_prediction = 1, bettor = alice, stake = 5, selected = 1\<rparr>
     \<in> set (placed_bets 1 (transcript [create_weather, alice_bets] deployed))"
    by code_simp
  show ?thesis
    using 1 second_bet_rejected [OF refl 1, of alice 7 102 "ExternalEuint8 0" True]
    by (simp add: alice_again_def)
qed

subsection \<open>C4\<close>

text \<open>
  C4, as stated, gives each error its own condition. The checks run in order and the
  first that fails decides: with an empty name and a single option the call fails with
  \<open>EmptyName\<close>, not with \<open>InvalidOptionsCount\<close>.
\<close>

theorem createPrediction_errors_counterexample:
  "\<not> (length [''OnlyOne''] < 2 \<longrightarrow>
      createPrediction 1 0 [] [''OnlyOne''] deployed = Inl InvalidOptionsCount)"
  by (simp add: createPrediction_def)

text \<open>
  C4 (amended). \<open>createPrediction\<close> fails with \<open>EmptyName\<close> when the name is empty;
  with \<open>InvalidOptionsCount\<close> when the name is not empty and there are fewer than 2 or
  more than 4 options; with \<open>EmptyOption\<close> when name and count are valid and some option
  is empty. Whenever it fails, the transaction leaves the state as it was, so
  \<open>getPredictionCount\<close> is unchanged.
\<close>

theorem createPrediction_errors:
  "(name' = [] \<longrightarrow> createPrediction a ts name' os s = Inl EmptyName) \<and>
   (name' \<noteq> [] \<and> (length os < 2 \<or> length os > 4) \<longrightarrow>
      createPrediction a ts name' os s = Inl InvalidOptionsCount) \<and>
   (name' \<noteq> [] \<and> 2 \<le> length os \<and> length os \<le> 4 \<and> [] \<in> set os \<longrightarrow>
      createPrediction a ts name' os s = Inl EmptyOption) \<and>
   (createPrediction a ts name' os s = Inl e \<longrightarrow>
      snd (execute (Tx a v ts (CreatePrediction name' os)) s) = s \<and>
      getPredictionCount (snd (execute (Tx a v ts (CreatePrediction name' os)) s)) =
        getPredictionCount s)"
  by (auto simp: createPrediction_def execute_def has_empty_option_iff Let_def)

text \<open>
  The four failing calls of the test suite and of the specification's properties.
\<close>

theorem createPrediction_errors_witness:
  "createPrediction 1 0 [] [''Yes'', ''No''] deployed = Inl EmptyName \<and>
   createPrediction 1 0 ''Invalid'' [''OnlyOne''] deployed = Inl InvalidOptionsCount \<and>
   createPrediction 1 0 ''Full'' [''A'', ''B'', ''C'', ''D'', ''E''] deployed =
     Inl InvalidOptionsCount \<and>
   createPrediction 1 0 ''Gap'' [''A'', []] deployed = Inl EmptyOption \<and>
   getPredictionCount (snd (execute (Tx 1 0 0 (CreatePrediction ''Gap'' [''A'', []])) deployed)) =
     getPredictionCount deployed"
  using createPrediction_errors [where name' = "[]" and a = 1 and ts = 0
      and os = "[''Yes'', ''No'']" and s = deployed]
    createPrediction_errors [where name' = "''Invalid''" and a = 1 and ts = 0
      and os = "[''OnlyOne'']" and s = deployed]
    createPrediction_errors [where name' = "''Full''" and a = 1 and ts = 0
      and os = "[''A'', ''B'', ''C'', ''D'', ''E'']" and s = deployed]
    createPrediction_errors [where name' = "''Gap''" and a = 1 and ts = 0
      and os = "[''A'', []]" and s = deployed and e = EmptyOption and v = 0]
  by simp

subsection \<open>C5\<close>

text \<open>
  C5. On a prediction that exists, in every state the contract can reach,
  \<open>placeEncryptedBet\<close> fails with \<open>InvalidBetAmount\<close> exactly when the attached value is
  zero or above $2^{64} - 1$, and then the state is unchanged.
\<close>

theorem invalid_bet_amount:
  assumes "s = run ts deployed" and "Prediction.exists (predictions s p)"
  shows "(fst (execute (Tx a v t (PlaceEncryptedBet p ext pr)) s) = Inl InvalidBetAmount
            \<longleftrightarrow> v = 0 \<or> v > 2 ^ 64 - 1) \<and>
         (v = 0 \<or> v > 2 ^ 64 - 1 \<longrightarrow>
            snd (execute (Tx a v t (PlaceEncryptedBet p ext pr)) s) = s)"
proof -
  let ?r = "placeEncryptedBet a v p ext pr (s\<lparr>balance := balance s + unat v\<rparr>)"
  have tot: "optionTotals (predictions s p) \<noteq> []"
    using assms existing_has_totals by simp
  show ?thesis
  proof (cases ?r)
    case (Inl e)
    then have "execute (Tx a v t (PlaceEncryptedBet p ext pr)) s = (Inl e, s)"
      by (rule execute_bet_Inl)
    moreover have "e = InvalidBetAmount \<longleftrightarrow> v = 0 \<or> v > 2 ^ 64 - 1"
      using Inl assms(2) tot by (auto simp: placeEncryptedBet_Inl split: if_splits)
    ultimately show ?thesis by simp
  next
    case (Inr s')
    obtain x where "ext = ExternalEuint8 x" by (cases ext)
    then have "v \<noteq> 0 \<and> v \<le> 2 ^ 64 - 1"
      using Inr by (simp add: placeEncryptedBet_Inr)
    then show ?thesis using Inr by (auto simp: execute_def)
  qed
qed

text \<open>
  On ``Weather'': a stake of 0 and a stake of $2^{64}$ are refused, $2^{64} - 1$ is not.
\<close>

theorem invalid_bet_amount_witness:
  "Prediction.exists (predictions (run [create_weather] deployed) 1) \<and>
   fst (execute (Tx alice 0 101 (PlaceEncryptedBet 1 (ExternalEuint8 1) True))
          (run [create_weather] deployed)) = Inl InvalidBetAmount \<and>
   fst (execute (Tx alice (2 ^ 64) 101 (PlaceEncryptedBet 1 (ExternalEuint8 1) True))
          (run [create_weather] deployed)) = Inl InvalidBetAmount \<and>
   fst (execute (Tx alice (2 ^ 64 - 1) 101 (PlaceEncryptedBet 1 (ExternalEuint8 1) True))
          (run [create_weather] deployed)) \<noteq> Inl InvalidBetAmount \<and>
   snd (execute (Tx alice 0 101 (PlaceEncryptedBet 1 (ExternalEuint8 1) True))
          (run [create_weather] deployed)) = run [create_weather] deployed"
proof -
  have 1: "Prediction.exists (predictions (run [create_weather] deployed) 1)"
    by code_simp
  show ?thesis
    using 1
      invalid_bet_amount [OF refl 1, of alice 0 101 "ExternalEuint8 1" True]
      invalid_bet_amount [OF refl 1, of alice "2 ^ 64" 101 "ExternalEuint8 1" True]
      invalid_bet_amount [OF refl 1, of alice "2 ^ 64 - 1" 101 "ExternalEuint8 1" True]
    by simp
qed

subsection \<open>C6\<close>

text \<open>
  C6. In every state the contract can reach: \<open>getUserBet\<close> fails with
  \<open>InvalidPrediction\<close> for an id that no creation returned; for a prediction that was
  created and an identity that placed no bet on it, it returns the two uninitialised
  (all-zero) handles and \<open>false\<close>; for an identity that placed a bet, it returns the
  ciphertexts stored by that bet (the encoded stake and the ingested selection, each with
  the grants to the contract and to the bettor) and \<open>true\<close>.
\<close>

theorem getUserBet_cases:
  assumes "s = run ts deployed" and "tr = transcript ts deployed"
  shows "(p \<notin> id' ` set (creations tr) \<longrightarrow> getUserBet p u s = Inl InvalidPrediction) \<and>
         (p \<in> id' ` set (creations tr) \<and> u \<notin> bettor ` set (placed_bets p tr) \<longrightarrow>
            getUserBet p u s = Inr (Uninitialized, Uninitialized, False)) \<and>
         (b \<in> set (placed_bets p tr) \<and> bettor b = u \<longrightarrow>
            getUserBet p u s =
              Inr (amount_ct u (stake b), selection_ct u (selected b), True))"
proof -
  have ex: "Prediction.exists (predictions s p) \<longleftrightarrow> p \<in> id' ` set (creations tr)"
    using assms by (simp add: exists_iff_created)
  have r: "bets_recorded s tr" using assms by (simp add: bets_recorded_run)
  then have st: "bets s p u = stored_bet u (bets_of u (placed_bets p tr))"
    and le: "length (bets_of u (placed_bets p tr)) \<le> 1"
    by (simp_all add: bets_recorded_def)
  have 1: "p \<notin> id' ` set (creations tr) \<longrightarrow> getUserBet p u s = Inl InvalidPrediction"
    using ex by (simp add: getUserBet_def)
  have 2: "getUserBet p u s = Inr (Uninitialized, Uninitialized, False)"
    if "p \<in> id' ` set (creations tr)" "u \<notin> bettor ` set (placed_bets p tr)"
  proof -
    have "bets_of u (placed_bets p tr) = []"
      using that(2) by (auto simp: bets_of_def filter_empty_conv)
    then show ?thesis
      using ex that(1) st by (simp add: getUserBet_def stored_bet_def zero_BetInfo_def)
  qed
  have 3: "getUserBet p u s = Inr (amount_ct u (stake b), selection_ct u (selected b), True)"
    if "b \<in> set (placed_bets p tr)" "bettor b = u"
  proof -
    have "placed_bets p tr \<noteq> []" using that(1) by auto
    then have e: "Prediction.exists (predictions s p)"
      using r by (auto simp: bets_recorded_def)
    have "b \<in> set (bets_of u (placed_bets p tr))"
      using that by (simp add: bets_of_def)
    then have "bets_of u (placed_bets p tr) = [b]"
      using le by (cases "bets_of u (placed_bets p tr)") auto
    then show ?thesis
      using e st by (simp add: getUserBet_def stored_bet_def)
  qed
  show ?thesis using 1 2 3 by blast
qed

text \<open>
  After ``Weather'' and Alice's bet of 5 on option 1: no prediction 2; nothing stored for
  Carol; Alice's stake and selection.
\<close>

theorem getUserBet_cases_witness:
  "2 \<notin> id' ` set (creations (transcript [create_weather, alice_bets] deployed)) \<and>
   getUserBet 2 alice (run [create_weather, alice_bets] deployed) = Inl InvalidPrediction \<and>
   1 \<in> id' ` set (creations (transcript [create_weather, alice_bets] deployed)) \<and>
   carol \<notin> bettor ` set (placed_bets 1 (transcript [create_weather, alice_bets] deployed)) \<and>
   getUserBet 1 carol (run [create_weather, alice_bets] deployed) =
     Inr (Uninitialized, Uninitialized, False) \<and>
   \<lparr>on_prediction = 1, bettor = alice, stake = 5, selected = 1\<rparr>
     \<in> set (placed_bets 1 (transcript [create_weather, alice_bets] deployed)) \<and>
   getUserBet 1 alice (run [create_weather, alice_bets] deployed) =
     Inr (Ciphertext 5 {Account alice, ThisContract},
          Ciphertext 1 {Account alice, ThisContract}, True)"
proof -
  let ?ts = "[create_weather, alice_bets]"
  let ?b = "\<lparr>on_prediction = 1, bettor = alice, stake = 5, selected = 1\<rparr>"
  have 1: "2 \<notin> id' ` set (creations (transcript ?ts deployed))" by code_simp
  have 2: "1 \<in> id' ` set (creations (transcript ?ts deployed))" by code_simp
  have 3: "carol \<notin> bettor ` set (placed_bets 1 (transcript ?ts deployed))" by code_simp
  have 4: "?b \<in> set (placed_bets 1 (transcript ?ts deployed))" by code_simp
  have a: "getUserBet 2 alice (run ?ts deployed) = Inl InvalidPrediction"
    using getUserBet_cases [OF refl refl, where p = 2 and ts = ?ts and u = alice] 1 by blast
  have b: "getUserBet 1 carol (run ?ts deployed) = Inr (Uninitialized, Uninitialized, False)"
    using getUserBet_cases [OF refl refl, where p = 1 and ts = ?ts and u = carol] 2 3 by blast
  have "getUserBet 1 alice (run ?ts deployed) =
      Inr (amount_ct alice (stake ?b), selection_ct alice (selected ?b), True)"
    using getUserBet_cases [OF refl refl, where p = 1 and ts = ?ts and u = alice and b = ?b] 4 by simp
  then have c: "getUserBet 1 alice (run ?ts deployed) =
      Inr (Ciphertext 5 {Account alice, ThisContract},
           Ciphertext 1 {Account alice, ThisContract}, True)"
    by (simp add: amount_ct_def selection_ct_def)
  show ?thesis
    using 1 2 3 4 a b c by (intro conjI)
qed

subsection \<open>C7\<close>

text \<open>
  C7. The ids returned by the successful calls of \<open>createPrediction\<close>, in the order of the
  calls, are 1, 2, 3 and so on, so no id is returned twice; and after any sequence of
  transactions \<open>getPredictionCount\<close> returns the number of successful creations.
\<close>

theorem sequential_ids:
  "map unat (map id' (creations (transcript ts deployed))) =
     [1..<Suc (length (creations (transcript ts deployed)))] \<and>
   unat (getPredictionCount (run ts deployed)) = length (creations (transcript ts deployed))"
proof -
  let ?s = "run ts deployed"
  let ?n = "length (predictionIds ?s)"
  have c: "consistent ?s" by (rule consistent_run)
  have ids: "predictionIds ?s = map id' (creations (transcript ts deployed))"
    by (rule ids_creations)
  then have len: "?n = length (creations (transcript ts deployed))" by simp
  have 1: "map unat (predictionIds ?s) = [1..<Suc ?n]"
    using c by (simp add: consistent_def)
  have "Suc ?n = unat (nextPredictionId ?s)"
    using c by (simp add: consistent_def)
  also have "\<dots> < 2 ^ 256"
    using unsigned_less [of "nextPredictionId ?s"] by simp
  finally have "?n < 2 ^ 256" by simp
  then have 2: "unat (getPredictionCount ?s) = ?n"
    by (simp add: getPredictionCount_def unat_of_nat)
  show ?thesis using 1 2 by (simp only: ids [symmetric] len [symmetric])
qed

subsection \<open>C8\<close>

text \<open>
  C8. In every state the contract can reach, \<open>listPredictions\<close> changes nothing and returns
  one summary for each successful \<open>createPrediction\<close>, in the order of the calls and
  nothing else; each summary carries the id that call returned, the name and the options
  it was given, its caller and its block's timestamp.
\<close>

theorem listPredictions_creations:
  "listPredictions (run ts deployed) = creations (transcript ts deployed) \<and>
   execute (Tx a 0 t ListPredictions) (run ts deployed) =
     (Inr (Summaries (creations (transcript ts deployed))), run ts deployed)"
  by (simp add: listPredictions_run execute_def)

subsection \<open>C9\<close>

text \<open>
  C9. In every state the contract can reach, an existing prediction has as many option
  totals as options. \<open>createPrediction\<close> establishes it (the new prediction stores the
  options given and one total for each), and \<open>placeEncryptedBet\<close> keeps both the options
  and the number of totals.
\<close>

theorem optionTotals_length:
  assumes "s = run ts deployed"
  shows "(Prediction.exists (predictions s p) \<longrightarrow>
            length (optionTotals (predictions s p)) =
              length (Prediction.options (predictions s p))) \<and>
         (createPrediction a t n os s = Inr (i, s1) \<longrightarrow>
            Prediction.options (predictions s1 i) = os \<and>
            length (optionTotals (predictions s1 i)) = length os) \<and>
         (placeEncryptedBet b v p (ExternalEuint8 x) pr s = Inr s2 \<longrightarrow>
            Prediction.options (predictions s2 p) = Prediction.options (predictions s p) \<and>
            length (optionTotals (predictions s2 p)) = length (optionTotals (predictions s p)))"
proof -
  have c: "consistent s" using assms by (simp add: consistent_run)
  have 1: "Prediction.exists (predictions s p) \<longrightarrow>
            length (optionTotals (predictions s p)) =
              length (Prediction.options (predictions s p))"
    using c by (simp add: consistent_def)
  have 2: "createPrediction a t n os s = Inr (i, s1) \<longrightarrow>
            Prediction.options (predictions s1 i) = os \<and>
            length (optionTotals (predictions s1 i)) = length os"
    using consistent_fresh(2) [OF c]
    by (auto simp: createPrediction_Inr new_prediction_def zero_Prediction_def)
  have 3: "placeEncryptedBet b v p (ExternalEuint8 x) pr s = Inr s2 \<longrightarrow>
            Prediction.options (predictions s2 p) = Prediction.options (predictions s p) \<and>
            length (optionTotals (predictions s2 p)) = length (optionTotals (predictions s p))"
    by (auto simp: placeEncryptedBet_Inr bet_prediction_def)
  show ?thesis using 1 2 3 by blast
qed

text \<open>
  After the creation of ``Weather'': the prediction exists with two totals, a second
  creation succeeds with three, and a bet keeps the two.
\<close>

theorem optionTotals_length_witness:
  "Prediction.exists (predictions (run [create_weather] deployed) 1) \<and>
   length (optionTotals (predictions (run [create_weather] deployed) 1)) =
     length (Prediction.options (predictions (run [create_weather] deployed) 1)) \<and>
   \<not> isl (createPrediction bob 103 ''Match'' [''A'', ''B'', ''C'']
            (run [create_weather] deployed)) \<and>
   length (optionTotals (predictions
      (snd (projr (createPrediction bob 103 ''Match'' [''A'', ''B'', ''C'']
                     (run [create_weather] deployed)))) 2)) = 3 \<and>
   \<not> isl (placeEncryptedBet alice 5 1 (ExternalEuint8 1) True
            (run [create_weather] deployed)) \<and>
   length (optionTotals (predictions
      (projr (placeEncryptedBet alice 5 1 (ExternalEuint8 1) True
                (run [create_weather] deployed))) 1)) =
     length (optionTotals (predictions (run [create_weather] deployed) 1))"
proof -
  let ?s = "run [create_weather] deployed"
  let ?c = "createPrediction bob 103 ''Match'' [''A'', ''B'', ''C''] ?s"
  let ?b = "placeEncryptedBet alice 5 1 (ExternalEuint8 1) True ?s"
  have 1: "Prediction.exists (predictions ?s 1)" by code_simp
  have 2: "\<not> isl ?c" "fst (projr ?c) = 2" by code_simp+
  have 3: "\<not> isl ?b" by code_simp
  have c: "?c = Inr (2, snd (projr ?c))"
    using 2 by (cases ?c) auto
  have b: "?b = Inr (projr ?b)"
    using 3 by (cases ?b) auto
  show ?thesis
    using 1 2 3 c b
      optionTotals_length [OF refl, of "[create_weather]" 1 bob 103 "''Match''"
        "[''A'', ''B'', ''C'']" 2 "snd (projr ?c)" alice 5 1 True "projr ?b"]
    by simp
qed

subsection \<open>C10\<close>

text \<open>
  C10. A transaction changes the value the contract holds only by adding the stake of a
  bet that was placed; nothing is ever paid out. After any sequence of transactions, from
  any state, the value held is the value held before plus the stakes of all bets placed
  since, so it never decreases and every stake stays in the contract.
\<close>

theorem value_locked:
  "balance (snd (execute t s)) = balance s + staked (placed (t, fst (execute t s))) \<and>
   balance (run ts s) = balance s + staked (concat (map placed (transcript ts s))) \<and>
   balance s \<le> balance (run ts s)"
proof -
  have step: "balance (snd (execute t s)) = balance s + staked (placed (t, fst (execute t s)))"
    for t s
  proof (cases t s rule: execute_cases)
    case (revert e)
    then show ?thesis by (simp add: placed_Inl staked_def)
  next
    case (view r)
    then show ?thesis by (simp add: staked_def)
  next
    case (create a ts n os s')
    then show ?thesis by (simp add: createPrediction_Inr staked_def)
  next
    case (bet a v ts p x pr s')
    then show ?thesis by (simp add: placeEncryptedBet_Inr staked_def)
  qed
  have runs: "balance (run ts s) = balance s + staked (concat (map placed (transcript ts s)))"
    for s
  proof (induction ts arbitrary: s)
    case Nil
    show ?case by (simp add: staked_def)
  next
    case (Cons t ts)
    show ?case
      using step [of t s] by (simp add: Cons.IH staked_def)
  qed
  show ?thesis using step runs by simp
qed

end
